theory Spec2Isabelle
  imports Main "HOL-Library.Sublist" "HOL-Library.Char_ord" "HOL-Library.List_Lexorder"
    "HOL-Library.AList"
begin

section \<open>Strings of the program\<close>

text \<open>
  A Python \<open>str\<close> is modelled as a \<open>string\<close> (a list of \<open>char\<close>), each \<open>char\<close> standing
  for one code point in the range 0 to 255.  Three characters get names: the backslash, the
  newline and the single quote.
\<close>

abbreviation BSL :: char where "BSL \<equiv> CHR 0x5C"
abbreviation NL :: char where "NL \<equiv> CHR 0x0A"
abbreviation SQ :: char where "SQ \<equiv> CHR 0x27"

text \<open>\<open>s[a:b]\<close> for non-negative \<open>a\<close> and \<open>b\<close>: empty when \<open>b \<le> a\<close>, clipped at the end.\<close>

definition slice :: "'a list \<Rightarrow> nat \<Rightarrow> nat \<Rightarrow> 'a list" where
  "slice s a b = take (b - a) (drop a s)"

text \<open>\<open>str.isspace\<close> on one code point below 256, which is what \<open>str.strip()\<close> removes.\<close>

definition is_space :: "char \<Rightarrow> bool" where
  "is_space c = (let n = (of_char c :: nat) in
     (9 \<le> n \<and> n \<le> 13) \<or> (28 \<le> n \<and> n \<le> 32) \<or> n = 133 \<or> n = 160)"

definition strip :: "string \<Rightarrow> string" where
  "strip s = rev (dropWhile is_space (rev (dropWhile is_space s)))"

text \<open>\<open>str.lower()\<close> on code points below 256: A to Z, and the accented capitals but the
  multiplication sign.\<close>

definition lower_char :: "char \<Rightarrow> char" where
  "lower_char c = (let n = (of_char c :: nat) in
     if (65 \<le> n \<and> n \<le> 90) \<or> (192 \<le> n \<and> n \<le> 222 \<and> n \<noteq> 215)
     then char_of (n + 32) else c)"

definition lower :: "string \<Rightarrow> string" where
  "lower s = map lower_char s"

text \<open>\<open>sep.join(xs)\<close>.\<close>

fun join :: "string \<Rightarrow> string list \<Rightarrow> string" where
  "join sep [] = []"
| "join sep [x] = x"
| "join sep (x # y # ys) = x @ sep @ join sep (y # ys)"

section \<open>The section pattern\<close>

text \<open>
  \<open>SECTION_PATTERN\<close> is
  \<^verbatim>\<open>\\(part|chapter|section|subsection|subsubsection|paragraph|subparagraph)\*?\{([^}]+)\}\<close>.
  The functions below decide whether it matches at the head of a string, the way the
  backtracking matcher does: the alternatives in their order, the star taken when it is
  there and given back when the rest fails, the title taken as far as it goes.
\<close>

definition section_kinds :: "string list" where
  "section_kinds = [''part'', ''chapter'', ''section'', ''subsection'', ''subsubsection'',
     ''paragraph'', ''subparagraph'']"

text \<open>\<^verbatim>\<open>\{([^}]+)\}\<close> at the head of \<open>s\<close>: the title and the number of characters matched.\<close>

definition match_braced :: "string \<Rightarrow> (string \<times> nat) option" where
  "match_braced s = (case s of
       [] \<Rightarrow> None
     | c # r \<Rightarrow>
         if c = CHR ''{'' then
           (let t = takeWhile (\<lambda>x. x \<noteq> CHR ''}'') r in
            if t \<noteq> [] \<and> length t < length r then Some (t, length t + 2) else None)
         else None)"

text \<open>\<^verbatim>\<open>\*?\{([^}]+)\}\<close> at the head of \<open>s\<close>.\<close>

definition match_tail :: "string \<Rightarrow> (string \<times> nat) option" where
  "match_tail s = (case s of
       [] \<Rightarrow> None
     | c # r \<Rightarrow>
         if c = CHR ''*'' then
           (case match_braced r of
              Some (t, n) \<Rightarrow> Some (t, n + 1)
            | None \<Rightarrow> match_braced s)
         else match_braced s)"

text \<open>The alternation followed by the rest of the pattern, first alternative first.\<close>

fun match_kinds :: "string list \<Rightarrow> string \<Rightarrow> (string \<times> string \<times> nat) option" where
  "match_kinds [] s = None"
| "match_kinds (k # ks) s =
     (if prefix k s then
        (case match_tail (drop (length k) s) of
           Some (t, n) \<Rightarrow> Some (k, t, length k + n)
         | None \<Rightarrow> match_kinds ks s)
      else match_kinds ks s)"

text \<open>The whole pattern at the head of \<open>s\<close>: group 1, group 2 and the length of the match.\<close>

definition match_section :: "string \<Rightarrow> (string \<times> string \<times> nat) option" where
  "match_section s = (case s of
       [] \<Rightarrow> None
     | c # r \<Rightarrow>
         if c = BSL then
           (case match_kinds section_kinds r of
              Some (k, t, n) \<Rightarrow> Some (k, t, n + 1)
            | None \<Rightarrow> None)
         else None)"

lemma match_section_length:
  "match_section s = Some (k, t, n) \<Longrightarrow> 0 < n"
  by (auto simp: match_section_def split: list.splits if_splits option.splits)

record rmatch =
  m_start :: nat
  m_end :: nat
  m_group1 :: string
  m_group2 :: string

text \<open>
  \<open>SECTION_PATTERN.finditer(content)\<close>: the matches from left to right, none overlapping
  another; \<open>pos\<close> is the offset of \<open>s\<close> in the document.
\<close>

function finditer :: "nat \<Rightarrow> string \<Rightarrow> rmatch list" where
  "finditer pos s =
     (if s = [] then []
      else (case match_section s of
              None \<Rightarrow> finditer (pos + 1) (tl s)
            | Some (k, t, n) \<Rightarrow>
                \<lparr>m_start = pos, m_end = pos + n, m_group1 = k, m_group2 = t\<rparr>
                  # finditer (pos + n) (drop n s)))"
  by pat_completeness auto
termination
  by (relation "measure (\<lambda>(pos, s). length s)") (auto dest: match_section_length)

declare finditer.simps [simp del]

section \<open>The section model\<close>

record sect =
  section_type :: string
  title :: string
  preview :: string
  start_pos :: nat
  end_pos :: nat

text \<open>
  The loop of \<open>parse_sections\<close> over \<open>enumerate(matches)\<close>: \<open>matches[i + 1]\<close> is the head of
  the matches still to come.
\<close>

fun build_sections :: "string \<Rightarrow> rmatch list \<Rightarrow> sect list" where
  "build_sections content [] = []"
| "build_sections content (m # ms) =
     (let start = m_end m;
          endp = (case ms of [] \<Rightarrow> length content | m' # _ \<Rightarrow> m_start m');
          section_content = strip (slice content start endp);
          prev = (if length section_content > 200
                  then take 200 section_content @ ''...'' else section_content)
      in \<lparr>section_type = m_group1 m, title = m_group2 m, preview = prev,
          start_pos = m_start m, end_pos = endp\<rparr> # build_sections content ms)"

definition parse_sections :: "string \<Rightarrow> sect list" where
  "parse_sections content = build_sections content (finditer 0 content)"

text \<open>The first section whose title equals the wanted one, case apart.\<close>

definition find_section :: "sect list \<Rightarrow> string \<Rightarrow> sect option" where
  "find_section sections wanted = find (\<lambda>s. lower (title s) = lower wanted) sections"

definition get_section_by_title :: "string \<Rightarrow> string \<Rightarrow> string option" where
  "get_section_by_title content wanted =
     (case find_section (parse_sections content) wanted of
        None \<Rightarrow> None
      | Some s \<Rightarrow> Some (slice content (start_pos s) (end_pos s)))"

section \<open>Replacing the body of a section\<close>

text \<open>
  The pattern that \<open>update_section\<close> builds from the section it found,
  \<^verbatim>\<open>rf"\\{section['type']}\*?\{{{re.escape(section['title'])}\}}"\<close>: a backslash, the type,
  an optional star and the title between braces, every character of the title standing
  for itself.  \<open>header_match\<close> gives the length of its match at the head of \<open>s\<close>.
\<close>

definition header_match :: "string \<Rightarrow> string \<Rightarrow> string \<Rightarrow> nat option" where
  "header_match ty ti s = (case s of
       [] \<Rightarrow> None
     | c # r \<Rightarrow>
         if c = BSL \<and> prefix ty r then
           (let r' = drop (length ty) r; lit = ''{'' @ ti @ ''}'' in
            if prefix (CHR ''*'' # lit) r' then Some (1 + length ty + 1 + length lit)
            else if prefix lit r' then Some (1 + length ty + length lit)
            else None)
         else None)"

text \<open>\<open>re.search(pattern, content)\<close>: the leftmost match, as (start, end).\<close>

fun re_search :: "string \<Rightarrow> string \<Rightarrow> nat \<Rightarrow> string \<Rightarrow> (nat \<times> nat) option" where
  "re_search ty ti pos [] = None"
| "re_search ty ti pos (c # cs) =
     (case header_match ty ti (c # cs) of
        Some n \<Rightarrow> Some (pos, pos + n)
      | None \<Rightarrow> re_search ty ti (Suc pos) cs)"

text \<open>
  What \<open>update_section\<close> does with the text of the file, between reading and writing it:
  \<open>Inl\<close> is the message it returns without writing, \<open>Inr\<close> the new content of the file.
\<close>

definition quoted_titles :: "sect list \<Rightarrow> string" where
  "quoted_titles sections = join '', '' (map (\<lambda>s. [SQ] @ title s @ [SQ]) sections)"

definition update_section_content :: "string \<Rightarrow> string \<Rightarrow> string \<Rightarrow> string + string" where
  "update_section_content content section_title new_content =
     (let sections = parse_sections content in
      case find_section sections section_title of
        None \<Rightarrow>
          Inl (''Section '' @ [SQ] @ section_title @ [SQ] @ '' not found. Available sections: ''
               @ quoted_titles sections)
      | Some section \<Rightarrow>
          (case re_search (section_type section) (title section) 0 content of
             None \<Rightarrow> Inl (''Could not locate section header for '' @ [SQ] @ section_title @ [SQ])
           | Some (hs, header_end) \<Rightarrow>
               Inr (take header_end content @ [NL] @ strip new_content @ [NL]
                    @ drop (end_pos section) content)))"

text \<open>The text of a heading command: a backslash, the type, the star if any, the title
  between braces.\<close>

definition heading_text :: "string \<Rightarrow> string \<Rightarrow> string \<Rightarrow> string" where
  "heading_text ty star ti = BSL # ty @ star @ ''{'' @ ti @ ''}''"

text \<open>What the \<open>get_section_content\<close> tool returns for a file with the given content.\<close>

definition get_section_content_text :: "string \<Rightarrow> string \<Rightarrow> string" where
  "get_section_content_text content section_title =
     (case get_section_by_title content section_title of
        None \<Rightarrow> ''Section '' @ [SQ] @ section_title @ [SQ] @ '' not found. Available sections: ''
                 @ quoted_titles (parse_sections content)
      | Some section_content \<Rightarrow>
          ''Content of section '' @ [SQ] @ section_title @ [SQ] @ '':'' @ [NL, NL] @ section_content)"

text \<open>Reading a section by its title and writing the string read back with
  \<open>update_section\<close>, unchanged.\<close>

definition read_then_update :: "string \<Rightarrow> string \<Rightarrow> (string + string) option" where
  "read_then_update content section_title =
     (case get_section_by_title content section_title of
        None \<Rightarrow> None
      | Some body \<Rightarrow> Some (update_section_content content section_title body))"

section \<open>Exceptions\<close>

text \<open>The exceptions of the modelled code, each with the text \<open>str\<close> gives for it.\<close>

datatype exn = ValueError string | GitCommandError string | OSError string

fun exn_str :: "exn \<Rightarrow> string" where
  "exn_str (ValueError m) = m"
| "exn_str (GitCommandError m) = m"
| "exn_str (OSError m) = m"

section \<open>Project configuration\<close>

text \<open>\<open>Config\<close> is what \<open>load_config()\<close> returns: the dictionary of projects as the list of its
  items in insertion order, and the default project if one is named.\<close>

record ProjectConfig =
  name :: string
  project_id :: string
  git_token :: string

record Config =
  projects :: "(string \<times> ProjectConfig) list"
  default_project :: "string option"

text \<open>\<open>get_project_config\<close>, on the configuration loaded; \<open>x or y\<close> takes \<open>y\<close> when \<open>x\<close> is
  \<open>None\<close> or the empty string, and \<open>next(iter(d.keys()))\<close> is the first key.\<close>

definition get_project_config :: "Config \<Rightarrow> string option \<Rightarrow> exn + ProjectConfig" where
  "get_project_config config project_name =
     (if projects config = [] then
        Inl (ValueError (''No projects configured. Create overleaf_config.json or set ''
             @ ''OVERLEAF_PROJECT_ID and OVERLEAF_GIT_TOKEN environment variables.''))
      else
        (let project_name' =
               (case project_name of
                  Some n \<Rightarrow> n
                | None \<Rightarrow>
                    (case default_project config of
                       Some d \<Rightarrow> if d \<noteq> [] then d else fst (hd (projects config))
                     | None \<Rightarrow> fst (hd (projects config))))
         in case map_of (projects config) project_name' of
              None \<Rightarrow>
                Inl (ValueError (''Project '' @ [SQ] @ project_name' @ [SQ] @ '' not found. Available: ''
                     @ join '', '' (map fst (projects config))))
            | Some p \<Rightarrow> Inr p))"

section \<open>Paths\<close>

text \<open>\<open>pathlib\<close> on POSIX.  A path is absolute or relative and has segments; parsing a string
  drops empty segments and \<open>.\<close>, and keeps \<open>..\<close>.  Joining with an absolute path gives that
  path.  The mirror and the directories above it hold no symbolic links, so \<open>resolve()\<close>
  makes the path absolute from the working directory \<open>cwd\<close> and removes every \<open>..\<close> with the
  segment before it; at the root \<open>..\<close> stays at the root.  That is \<open>lexical_resolve\<close>.
  \<open>resolve()\<close> asks the operating system about each segment on its way, and a segment that
  holds the character NUL makes it raise \<open>ValueError\<close>; \<open>Path.exists()\<close> answers \<open>False\<close> for
  such a path.  A resolved path is the list of its segments, and \<open>path_str\<close> is its \<open>str\<close>.\<close>

fun split_on :: "char \<Rightarrow> string \<Rightarrow> string list" where
  "split_on c [] = [[]]"
| "split_on c (x # xs) =
     (if x = c then [] # split_on c xs
      else (case split_on c xs of
              [] \<Rightarrow> [[x]]
            | p # ps \<Rightarrow> (x # p) # ps))"

record pure_path =
  is_absolute :: bool
  segments :: "string list"

definition parse_path :: "string \<Rightarrow> pure_path" where
  "parse_path s =
     \<lparr>is_absolute = (s \<noteq> [] \<and> hd s = CHR ''/''),
      segments = filter (\<lambda>p. p \<noteq> [] \<and> p \<noteq> ''.'') (split_on (CHR ''/'') s)\<rparr>"

definition joinpath :: "pure_path \<Rightarrow> pure_path \<Rightarrow> pure_path" where
  "joinpath a b = (if is_absolute b then b
                   else \<lparr>is_absolute = is_absolute a, segments = segments a @ segments b\<rparr>)"

text \<open>\<open>Path.parts\<close>: the root, if the path is absolute, and the segments.\<close>

definition parts :: "pure_path \<Rightarrow> string list" where
  "parts p = (if is_absolute p then [''/''] else []) @ segments p"

fun normalize :: "string list \<Rightarrow> string list \<Rightarrow> string list" where
  "normalize acc [] = acc"
| "normalize acc (p # ps) =
     (if p = ''..'' then normalize (butlast acc) ps else normalize (acc @ [p]) ps)"

definition lexical_resolve :: "string list \<Rightarrow> pure_path \<Rightarrow> string list" where
  "lexical_resolve cwd p = (if is_absolute p then normalize [] (segments p)
                            else normalize cwd (segments p))"

definition has_null :: "pure_path \<Rightarrow> bool" where
  "has_null p = (\<exists>seg\<in>set (segments p). CHR 0x00 \<in> set seg)"

definition resolve :: "string list \<Rightarrow> pure_path \<Rightarrow> exn + string list" where
  "resolve cwd p = (if has_null p then Inl (ValueError ''embedded null byte'')
                    else Inr (lexical_resolve cwd p))"

definition path_str :: "string list \<Rightarrow> string" where
  "path_str ps = (if ps = [] then ''/'' else concat (map (\<lambda>p. CHR ''/'' # p) ps))"

definition validate_path :: "string list \<Rightarrow> pure_path \<Rightarrow> string \<Rightarrow> exn + string list" where
  "validate_path cwd base_path target_path =
     (case resolve cwd (joinpath base_path (parse_path target_path)) of
        Inl x \<Rightarrow> Inl x
      | Inr resolved \<Rightarrow>
          (case resolve cwd base_path of
             Inl x \<Rightarrow> Inl x
           | Inr root \<Rightarrow>
               if \<not> prefix (path_str root) (path_str resolved)
               then Inl (ValueError (''Path '' @ [SQ] @ target_path @ [SQ]
                                     @ '' escapes repository root''))
               else Inr resolved))"

section \<open>Listing files\<close>

text \<open>The \<open>list_files\<close> tool.  \<open>repo_path.rglob("*")\<close> gives every entry below \<open>repo_path\<close> as
  \<open>repo_path\<close> joined with a relative path; \<open>entries\<close> holds, in the order of the walk, the
  relative segments of each entry and whether it \<open>is_file()\<close>.  \<open>suffix_of\<close> is \<open>Path.suffix\<close> on
  the name of a path: the text from the last dot on, when that dot is neither the first nor
  the last character of the name.\<close>

definition startswith :: "string \<Rightarrow> string \<Rightarrow> bool" where
  "startswith s p = prefix p s"

definition suffix_of :: "string \<Rightarrow> string" where
  "suffix_of nm =
     (if CHR ''.'' \<in> set nm then
        (let i = length nm - length (takeWhile (\<lambda>c. c \<noteq> CHR ''.'') (rev nm)) - 1 in
         if 0 < i \<and> i < length nm - 1 then drop i nm else [])
      else [])"

definition path_name :: "string list \<Rightarrow> string" where
  "path_name ps = (if ps = [] \<or> ps = [''/''] then [] else last ps)"

definition listed_files :: "pure_path \<Rightarrow> (string list \<times> bool) list \<Rightarrow> string \<Rightarrow> string list" where
  "listed_files repo_path entries extension =
     sort (map (\<lambda>(rel, is_file). join ''/'' rel)
       (filter (\<lambda>(rel, is_file).
           is_file \<and> \<not> (\<exists>part\<in>set (parts repo_path @ rel). startswith part ''.'')
           \<and> (extension = [] \<or> suffix_of (path_name (parts repo_path @ rel)) = extension))
         entries))"

definition list_files_text :: "string \<Rightarrow> pure_path \<Rightarrow> (string list \<times> bool) list \<Rightarrow> string \<Rightarrow> string" where
  "list_files_text project_name repo_path entries extension =
     (let files = listed_files repo_path entries extension in
      if files = [] then
        ''No files found'' @ (if extension \<noteq> [] then '' with extension '' @ extension else [])
      else ''Files in project '' @ [SQ] @ project_name @ [SQ] @ '':'' @ [NL]
           @ join [NL] (map (\<lambda>f. ''  - '' @ f) files))"


section \<open>The mirror and the tools that change it\<close>

text \<open>The state the tools work on: the file system (absolute resolved path to file content or
  directory, in the order a walk lists them) and the git repository at the mirror path of the
  project (configured user, staged paths, local commits, commits at \<open>origin\<close>).\<close>

datatype node = File string | Dir

record world =
  fs :: "(string list \<times> node) list"
  git_user :: "(string \<times> string) option"
  index :: "string list"
  commits :: "(string \<times> string list) list"
  remote :: "(string \<times> string list) list"

text \<open>What a call depends on besides its arguments: the configuration, \<open>TEMP_DIR\<close>, the working
  directory, the author variables of the environment, and what the network and the
  repository library do: the outcome of \<open>origin.pull()\<close> and of \<open>Repo.clone_from\<close>; the error of
  \<open>origin.push()\<close> when it raises, and whether \<open>origin\<close> takes the commits when it returns; the
  exception \<open>repo.index.add\<close> or \<open>repo.index.remove\<close> raises for a path, if any.\<close>

record env =
  env_config :: Config
  env_temp_dir :: string
  env_cwd :: "string list"
  env_author_name :: "string option"
  env_author_email :: "string option"
  env_pull :: "world \<Rightarrow> exn + world"
  env_clone :: "world \<Rightarrow> exn + world"
  env_push_error :: "string option"
  env_push_accepted :: bool
  env_index_add_error :: "world \<Rightarrow> string \<Rightarrow> exn option"
  env_index_remove_error :: "world \<Rightarrow> string \<Rightarrow> exn option"

text \<open>The \<open>arguments\<close> dictionary: required keys as fields, optional keys as options.\<close>

record arguments =
  arg_project_name :: "string option"
  arg_file_path :: string
  arg_content :: string
  arg_commit_message :: "string option"
  arg_push :: "bool option"
  arg_section_title :: string
  arg_new_content :: string

text \<open>The calls on files and on the repository.  \<open>path_exists\<close> is \<open>Path.exists()\<close> on a resolved
  path, \<open>exists\<close> the same on a path as the program builds it.  \<open>read_text\<close> reads in text
  mode, which turns a carriage return, with the newline after it if there is one, into a
  newline.\<close>

definition path_exists :: "world \<Rightarrow> string list \<Rightarrow> bool" where
  "path_exists w p = (map_of (fs w) p \<noteq> None)"

definition exists :: "string list \<Rightarrow> world \<Rightarrow> pure_path \<Rightarrow> bool" where
  "exists cwd w p = (\<not> has_null p \<and> path_exists w (lexical_resolve cwd p))"

definition write_text :: "world \<Rightarrow> string list \<Rightarrow> string \<Rightarrow> exn + world" where
  "write_text w p c =
     (case map_of (fs w) p of
        Some Dir \<Rightarrow> Inl (OSError ''Is a directory'')
      | _ \<Rightarrow> Inr (w\<lparr>fs := AList.update p (File c) (fs w)\<rparr>))"

fun universal_newlines :: "string \<Rightarrow> string" where
  "universal_newlines [] = []"
| "universal_newlines [c] = (if c = CHR 0x0D then [NL] else [c])"
| "universal_newlines (c # d # ds) =
     (if c = CHR 0x0D \<and> d = NL then NL # universal_newlines ds
      else if c = CHR 0x0D then NL # universal_newlines (d # ds)
      else c # universal_newlines (d # ds))"

definition read_text :: "world \<Rightarrow> string list \<Rightarrow> exn + string" where
  "read_text w p =
     (case map_of (fs w) p of
        Some (File c) \<Rightarrow> Inr (universal_newlines c)
      | Some Dir \<Rightarrow> Inl (OSError ''Is a directory'')
      | None \<Rightarrow> Inl (OSError ''No such file or directory''))"

definition unlink :: "world \<Rightarrow> string list \<Rightarrow> exn + world" where
  "unlink w p =
     (case map_of (fs w) p of
        Some (File c) \<Rightarrow> Inr (w\<lparr>fs := AList.delete p (fs w)\<rparr>)
      | Some Dir \<Rightarrow> Inl (OSError ''Is a directory'')
      | None \<Rightarrow> Inl (OSError ''No such file or directory''))"

fun mkdirs :: "world \<Rightarrow> string list list \<Rightarrow> exn + world" where
  "mkdirs w [] = Inr w"
| "mkdirs w (d # ds) =
     (case map_of (fs w) d of
        Some (File c) \<Rightarrow> Inl (OSError ''File exists'')
      | Some Dir \<Rightarrow> mkdirs w ds
      | None \<Rightarrow> mkdirs (w\<lparr>fs := fs w @ [(d, Dir)]\<rparr>) ds)"

definition mkdir_parents :: "world \<Rightarrow> string list \<Rightarrow> exn + world" where
  "mkdir_parents w p = mkdirs w (tl (prefixes p))"

text \<open>\<open>get_repo_path\<close> and \<open>ensure_repo\<close>: a pull that raises \<open>GitCommandError\<close> leaves the mirror as
  it is and the call goes on; a clone that raises ends the call.\<close>

definition get_repo_path :: "env \<Rightarrow> string \<Rightarrow> pure_path" where
  "get_repo_path e pid = joinpath (parse_path (env_temp_dir e)) (parse_path pid)"

definition ensure_repo :: "env \<Rightarrow> ProjectConfig \<Rightarrow> world \<Rightarrow> exn + world" where
  "ensure_repo e project w =
     (let repo_path = get_repo_path e (project_id project) in
      if exists (env_cwd e) w repo_path then
        (case env_pull e w of
           Inl (GitCommandError m) \<Rightarrow> Inr w
         | Inl other \<Rightarrow> Inl other
         | Inr w' \<Rightarrow> Inr w')
      else env_clone e w)"

definition config_git_user :: "env \<Rightarrow> world \<Rightarrow> world" where
  "config_git_user e w =
     (case git_user w of
        Some u \<Rightarrow> w
      | None \<Rightarrow>
          w\<lparr>git_user := Some
               (case env_author_name e of None \<Rightarrow> ''Overleaf MCP'' | Some n \<Rightarrow> n,
                case env_author_email e of None \<Rightarrow> ''mcp@overleaf.local'' | Some m \<Rightarrow> m)\<rparr>)"

definition index_add :: "env \<Rightarrow> world \<Rightarrow> string \<Rightarrow> exn + world" where
  "index_add e w file_path =
     (case env_index_add_error e w file_path of
        Some x \<Rightarrow> Inl x
      | None \<Rightarrow> Inr (w\<lparr>index := index w @ [file_path]\<rparr>))"

definition index_remove :: "env \<Rightarrow> world \<Rightarrow> string \<Rightarrow> exn + world" where
  "index_remove e w file_path =
     (case env_index_remove_error e w file_path of
        Some x \<Rightarrow> Inl x
      | None \<Rightarrow> Inr (w\<lparr>index := index w @ [file_path]\<rparr>))"

definition index_commit :: "world \<Rightarrow> string \<Rightarrow> world" where
  "index_commit w message = w\<lparr>commits := commits w @ [(message, index w)], index := []\<rparr>"

definition push :: "env \<Rightarrow> world \<Rightarrow> exn + world" where
  "push e w =
     (case env_push_error e of
        Some m \<Rightarrow> Inl (GitCommandError m)
      | None \<Rightarrow> Inr (if env_push_accepted e then w\<lparr>remote := commits w\<rparr> else w))"

text \<open>\<open>arguments.get("commit_message", default)\<close> and \<open>arguments.get("push", True)\<close>.\<close>

definition commit_message_or :: "arguments \<Rightarrow> string \<Rightarrow> string" where
  "commit_message_or args dflt = (case arg_commit_message args of None \<Rightarrow> dflt | Some m \<Rightarrow> m)"

definition push_wanted :: "arguments \<Rightarrow> bool" where
  "push_wanted args = (case arg_push args of None \<Rightarrow> True | Some b \<Rightarrow> b)"

definition quote :: "string \<Rightarrow> string" where
  "quote s = [SQ] @ s @ [SQ]"

text \<open>The four tools that change the mirror.  \<open>execute_tool\<close> runs the steps they all start
  with (project lookup, \<open>ensure_repo\<close>, \<open>validate_path\<close>), \<open>tool_body\<close> the rest of each branch.
  The result is the string returned or the exception raised, with the state reached.\<close>

datatype tool = create_file | edit_file | update_section | delete_file

fun tool_body :: "tool \<Rightarrow> env \<Rightarrow> arguments \<Rightarrow> string list \<Rightarrow> world
    \<Rightarrow> (exn + string) \<times> world" where
  "tool_body create_file e args target_path w1 =
     (let file_path = arg_file_path args;
          commit_message = commit_message_or args (''Add '' @ file_path) in
      if path_exists w1 target_path then
        (Inr (''Error: File '' @ quote file_path @ '' already exists. Use edit_file to modify it.''), w1)
      else
        (case mkdir_parents w1 (butlast target_path) of
           Inl x \<Rightarrow> (Inl x, w1)
         | Inr w2 \<Rightarrow>
             (case write_text w2 target_path (arg_content args) of
                Inl x \<Rightarrow> (Inl x, w2)
              | Inr w3 \<Rightarrow>
                  (let w4 = config_git_user e w3 in
                   case index_add e w4 file_path of
                     Inl x \<Rightarrow> (Inl x, w4)
                   | Inr w5 \<Rightarrow>
                       (let w6 = index_commit w5 commit_message in
                        if push_wanted args then
                          (case push e w6 of
                             Inl x \<Rightarrow> (Inl x, w6)
                           | Inr w7 \<Rightarrow> (Inr (''Created and pushed '' @ quote file_path), w7))
                        else
                          (Inr (''Created '' @ quote file_path
                                @ '' (not pushed). Run sync_project or use push=true to push changes.''),
                           w6))))))"
| "tool_body edit_file e args target_path w1 =
     (let file_path = arg_file_path args;
          commit_message = commit_message_or args (''Update '' @ file_path) in
      if \<not> path_exists w1 target_path then
        (Inr (''Error: File '' @ quote file_path @ '' not found. Use create_file to create it.''), w1)
      else
        (case write_text w1 target_path (arg_content args) of
           Inl x \<Rightarrow> (Inl x, w1)
         | Inr w3 \<Rightarrow>
             (let w4 = config_git_user e w3 in
              case index_add e w4 file_path of
                Inl x \<Rightarrow> (Inl x, w4)
              | Inr w5 \<Rightarrow>
                  (let w6 = index_commit w5 commit_message in
                   if push_wanted args then
                     (case push e w6 of
                        Inl x \<Rightarrow> (Inl x, w6)
                      | Inr w7 \<Rightarrow> (Inr (''Updated and pushed '' @ quote file_path), w7))
                   else
                     (Inr (''Updated '' @ quote file_path
                           @ '' (not pushed). Run sync_project or use push=true to push changes.''),
                      w6)))))"
| "tool_body update_section e args target_path w1 =
     (let file_path = arg_file_path args;
          section_title = arg_section_title args;
          commit_message = commit_message_or args (''Update section '' @ quote section_title) in
      if \<not> path_exists w1 target_path then
        (Inr (''Error: File '' @ quote file_path @ '' not found''), w1)
      else
        (case read_text w1 target_path of
           Inl x \<Rightarrow> (Inl x, w1)
         | Inr content \<Rightarrow>
             (case update_section_content content section_title (arg_new_content args) of
                Inl message \<Rightarrow> (Inr message, w1)
              | Inr new_file_content \<Rightarrow>
                  (case write_text w1 target_path new_file_content of
                     Inl x \<Rightarrow> (Inl x, w1)
                   | Inr w3 \<Rightarrow>
                       (let w4 = config_git_user e w3 in
                        case index_add e w4 file_path of
                          Inl x \<Rightarrow> (Inl x, w4)
                        | Inr w5 \<Rightarrow>
                            (let w6 = index_commit w5 commit_message in
                             if push_wanted args then
                               (case push e w6 of
                                  Inl x \<Rightarrow> (Inl x, w6)
                                | Inr w7 \<Rightarrow>
                                    (Inr (''Updated section '' @ quote section_title
                                          @ '' and pushed''), w7))
                             else
                               (Inr (''Updated section '' @ quote section_title
                                     @ '' (not pushed)''), w6)))))))"
| "tool_body delete_file e args target_path w1 =
     (let file_path = arg_file_path args;
          commit_message = commit_message_or args (''Delete '' @ file_path) in
      if \<not> path_exists w1 target_path then
        (Inr (''Error: File '' @ quote file_path @ '' not found''), w1)
      else
        (let w2 = config_git_user e w1 in
         case index_remove e w2 file_path of
           Inl x \<Rightarrow> (Inl x, w2)
         | Inr w3 \<Rightarrow>
             (case unlink w3 target_path of
                Inl x \<Rightarrow> (Inl x, w3)
              | Inr w4 \<Rightarrow>
                  (let w6 = index_commit w4 commit_message in
                   if push_wanted args then
                     (case push e w6 of
                        Inl x \<Rightarrow> (Inl x, w6)
                      | Inr w7 \<Rightarrow> (Inr (''Deleted and pushed '' @ quote file_path), w7))
                   else (Inr (''Deleted '' @ quote file_path @ '' (not pushed)''), w6)))))"

definition execute_tool :: "env \<Rightarrow> tool \<Rightarrow> arguments \<Rightarrow> world \<Rightarrow> (exn + string) \<times> world" where
  "execute_tool e t args w =
     (case get_project_config (env_config e) (arg_project_name args) of
        Inl x \<Rightarrow> (Inl x, w)
      | Inr project \<Rightarrow>
          (case ensure_repo e project w of
             Inl x \<Rightarrow> (Inl x, w)
           | Inr w1 \<Rightarrow>
               (case validate_path (env_cwd e) (get_repo_path e (project_id project)) (arg_file_path args) of
                  Inl x \<Rightarrow> (Inl x, w1)
                | Inr target_path \<Rightarrow> tool_body t e args target_path w1)))"

text \<open>\<open>call_tool\<close>: an exception becomes the text \<open>Error: \<close> followed by its message.\<close>

definition call_tool :: "env \<Rightarrow> tool \<Rightarrow> arguments \<Rightarrow> world \<Rightarrow> string \<times> world" where
  "call_tool e t args w =
     (case execute_tool e t args w of
        (Inr result, w') \<Rightarrow> (result, w')
      | (Inl x, w') \<Rightarrow> (''Error: '' @ exn_str x, w'))"

section \<open>Examples\<close>

text \<open>The document of the specification's scenarios, and one whose first heading holds
  the text of its second heading inside its title.\<close>

definition example_doc :: string where
  "example_doc = BSL # ''section{Intro}'' @ [NL] @ ''Hello'' @ [NL]
     @ BSL # ''section{Methods}'' @ [NL] @ ''World'' @ [NL]"

definition nested_doc :: string where
  "nested_doc = BSL # ''section{a'' @ BSL # ''section{Foo}X'' @ BSL # ''section{Foo}Y''"

text \<open>A configuration with one project, a mirror holding \<open>main.tex\<close>, a network where pulling
  changes nothing and pushing fails, an index that takes every path, and the arguments of a
  call on \<open>main.tex\<close>.\<close>

definition example_project :: ProjectConfig where
  "example_project = \<lparr>name = ''Paper'', project_id = ''abc'', git_token = ''tok''\<rparr>"

definition example_config :: Config where
  "example_config = \<lparr>projects = [(''paper'', example_project)], default_project = None\<rparr>"

definition example_env :: env where
  "example_env =
     \<lparr>env_config = example_config, env_temp_dir = ''./overleaf_cache'', env_cwd = [''srv''],
      env_author_name = None, env_author_email = None,
      env_pull = (\<lambda>w. Inr w), env_clone = (\<lambda>w. Inl (GitCommandError ''clone failed'')),
      env_push_error = Some ''remote unreachable'', env_push_accepted = True,
      env_index_add_error = (\<lambda>w p. None), env_index_remove_error = (\<lambda>w p. None)\<rparr>"

definition example_world :: world where
  "example_world =
     \<lparr>fs = [([''srv'', ''overleaf_cache'', ''abc''], Dir),
            ([''srv'', ''overleaf_cache'', ''abc'', ''main.tex''], File ''old'')],
      git_user = None, index = [], commits = [], remote = []\<rparr>"

definition example_args :: arguments where
  "example_args =
     \<lparr>arg_project_name = None, arg_file_path = ''main.tex'', arg_content = ''new'',
      arg_commit_message = None, arg_push = None, arg_section_title = ''Intro'',
      arg_new_content = ''Goodbye''\<rparr>"

text \<open>The example mirror after \<open>edit_file\<close> has written \<open>main.tex\<close> and committed it.\<close>

definition committed_world :: world where
  "committed_world =
     \<lparr>fs = [([''srv'', ''overleaf_cache'', ''abc''], Dir),
            ([''srv'', ''overleaf_cache'', ''abc'', ''main.tex''], File ''new'')],
      git_user = Some (''Overleaf MCP'', ''mcp@overleaf.local''), index = [],
      commits = [(''Update main.tex'', [''main.tex''])], remote = []\<rparr>"

text \<open>The commit message each tool uses when the caller gives none, and the text each tool
  returns after a commit that it was asked not to push.\<close>

fun default_commit_message :: "tool \<Rightarrow> arguments \<Rightarrow> string" where
  "default_commit_message create_file args = ''Add '' @ arg_file_path args"
| "default_commit_message edit_file args = ''Update '' @ arg_file_path args"
| "default_commit_message update_section args = ''Update section '' @ quote (arg_section_title args)"
| "default_commit_message delete_file args = ''Delete '' @ arg_file_path args"

fun not_pushed_message :: "tool \<Rightarrow> arguments \<Rightarrow> string" where
  "not_pushed_message create_file args =
     ''Created '' @ quote (arg_file_path args)
       @ '' (not pushed). Run sync_project or use push=true to push changes.''"
| "not_pushed_message edit_file args =
     ''Updated '' @ quote (arg_file_path args)
       @ '' (not pushed). Run sync_project or use push=true to push changes.''"
| "not_pushed_message update_section args =
     ''Updated section '' @ quote (arg_section_title args) @ '' (not pushed)''"
| "not_pushed_message delete_file args = ''Deleted '' @ quote (arg_file_path args) @ '' (not pushed)''"

section \<open>Predicates used in the proofs\<close>

text \<open>Matches that follow one another from \<open>lo\<close> on, each one non-empty.\<close>

fun chain :: "nat \<Rightarrow> rmatch list \<Rightarrow> bool" where
  "chain lo [] = True"
| "chain lo (m # ms) = (lo \<le> m_start m \<and> m_start m < m_end m \<and> chain (m_end m) ms)"

text \<open>Sections each ending where the next one starts, the last one at \<open>hi\<close>.\<close>

fun contiguous :: "nat \<Rightarrow> sect list \<Rightarrow> bool" where
  "contiguous hi [] = True"
| "contiguous hi [s] = (start_pos s < end_pos s \<and> end_pos s = hi)"
| "contiguous hi (s # s' # r) =
     (start_pos s < end_pos s \<and> end_pos s = start_pos s' \<and> contiguous hi (s' # r))"


section \<open>Properties of the section pattern\<close>

lemma match_braced_SomeD:
  assumes a: "match_braced s = Some (t, n)"
  shows "t \<noteq> [] \<and> CHR ''}'' \<notin> set t \<and> n = length t + 2 \<and> (\<exists>rest. s = ''{'' @ t @ ''}'' @ rest)"
proof -
  let ?P = "\<lambda>x. x \<noteq> CHR ''}''"
  from a obtain r where s: "s = CHR ''{'' # r"
    by (cases s) (auto simp: match_braced_def split: if_splits)
  from a s have t: "t = takeWhile ?P r" and ne: "t \<noteq> []"
    and len: "length t < length r" and n: "n = length t + 2"
    by (auto simp: match_braced_def Let_def split: if_splits)
  have notin: "CHR ''}'' \<notin> set t"
    unfolding t by (auto dest: set_takeWhileD)
  have dne: "dropWhile ?P r \<noteq> []"
  proof
    assume "dropWhile ?P r = []"
    then have "takeWhile ?P r = r" by (simp add: takeWhile_eq_all_conv)
    with len t show False by simp
  qed
  then have "\<not> ?P (hd (dropWhile ?P r))" by (rule hd_dropWhile)
  with dne obtain rest where d: "dropWhile ?P r = CHR ''}'' # rest"
    by (cases "dropWhile ?P r") auto
  have "r = takeWhile ?P r @ dropWhile ?P r" by simp
  with d t have "r = t @ CHR ''}'' # rest" by simp
  with s have "s = ''{'' @ t @ ''}'' @ rest" by simp
  with ne notin n show ?thesis by blast
qed

lemma match_braced_intro:
  assumes "t \<noteq> []" "CHR ''}'' \<notin> set t"
  shows "match_braced (''{'' @ t @ ''}'' @ rest) = Some (t, length t + 2)"
proof -
  have "takeWhile (\<lambda>x. x \<noteq> CHR ''}'') (t @ CHR ''}'' # rest) = t"
    using assms(2) by (auto simp: takeWhile_tail takeWhile_eq_all_conv)
  with assms(1) show ?thesis by (simp add: match_braced_def)
qed

lemma match_tail_SomeD:
  assumes "match_tail s = Some (t, n)"
  shows "t \<noteq> [] \<and> CHR ''}'' \<notin> set t \<and>
     (\<exists>star rest. (star = [] \<or> star = ''*'') \<and> s = star @ ''{'' @ t @ ''}'' @ rest \<and> n = length star + length t + 2)"
proof (cases "\<exists>r n'. s = CHR ''*'' # r \<and> match_braced r = Some (t, n')")
  case True
  then obtain r n' where s: "s = CHR ''*'' # r" and m: "match_braced r = Some (t, n')" by blast
  from assms s m have n: "n = n' + 1" by (simp add: match_tail_def)
  from match_braced_SomeD[OF m] obtain rest where
    "t \<noteq> []" "CHR ''}'' \<notin> set t" "n' = length t + 2" "r = ''{'' @ t @ ''}'' @ rest" by blast
  with s n show ?thesis by (intro conjI exI[of _ "''*''"] exI[of _ rest]) simp_all
next
  case False
  with assms have m: "match_braced s = Some (t, n)"
    by (auto simp: match_tail_def split: list.splits if_splits option.splits)
  from match_braced_SomeD[OF m] obtain rest where
    "t \<noteq> []" "CHR ''}'' \<notin> set t" "n = length t + 2" "s = ''{'' @ t @ ''}'' @ rest" by blast
  then show ?thesis by (intro conjI exI[of _ "[]"] exI[of _ rest]) simp_all
qed

lemma match_kinds_SomeD:
  "match_kinds ks s = Some (k, t, n) \<Longrightarrow>
     k \<in> set ks \<and> t \<noteq> [] \<and> CHR ''}'' \<notin> set t \<and>
     (\<exists>star rest. (star = [] \<or> star = ''*'') \<and> s = k @ star @ ''{'' @ t @ ''}'' @ rest
        \<and> n = length k + length star + length t + 2)"
proof (induction ks)
  case Nil
  then show ?case by simp
next
  case (Cons a ks)
  show ?case
  proof (cases "prefix a s \<and> match_tail (drop (length a) s) \<noteq> None")
    case True
    then obtain t' n' where mt: "match_tail (drop (length a) s) = Some (t', n')" by auto
    with True Cons.prems have eq: "k = a" "t = t'" "n = length a + n'" by auto
    from True obtain r0 where s: "s = a @ r0" by (auto simp: prefix_def)
    from match_tail_SomeD[OF mt] eq s obtain star rest where
      "t \<noteq> []" "CHR ''}'' \<notin> set t" "star = [] \<or> star = ''*''"
      "r0 = star @ ''{'' @ t @ ''}'' @ rest" "n' = length star + length t + 2"
      by auto
    with s eq show ?thesis
      by (intro conjI exI[of _ star] exI[of _ rest]) simp_all
  next
    case False
    with Cons.prems have "match_kinds ks s = Some (k, t, n)"
      by (auto split: if_splits option.splits)
    from Cons.IH[OF this] show ?thesis by auto
  qed
qed

lemma match_section_SomeD:
  assumes "match_section s = Some (k, t, n)"
  shows "k \<in> set section_kinds \<and> t \<noteq> [] \<and> CHR ''}'' \<notin> set t \<and>
     (\<exists>star rest. (star = [] \<or> star = ''*'') \<and> s = BSL # k @ star @ ''{'' @ t @ ''}'' @ rest
        \<and> n = 1 + length k + length star + length t + 2)"
proof -
  from assms obtain r n' where s: "s = BSL # r" and m: "match_kinds section_kinds r = Some (k, t, n')"
    and n: "n = n' + 1"
    by (cases s) (auto simp: match_section_def split: if_splits option.splits)
  from match_kinds_SomeD[OF m] s n show ?thesis by auto
qed

lemma match_section_le: "match_section s = Some (k, t, n) \<Longrightarrow> n \<le> length s"
  by (drule match_section_SomeD) auto


lemma chain_mono: "chain lo ms \<Longrightarrow> lo' \<le> lo \<Longrightarrow> chain lo' ms"
  by (cases ms) auto

lemma finditer_chain: "chain pos (finditer pos s)"
proof (induction pos s rule: finditer.induct)
  case (1 pos s)
  show ?case
  proof (cases "s = []")
    case True
    then show ?thesis by (simp add: finditer.simps)
  next
    case ne: False
    show ?thesis
    proof (cases "match_section s")
      case None
      with ne "1.IH"(1) have "chain (pos + 1) (finditer (pos + 1) (tl s))" by simp
      then have "chain pos (finditer (pos + 1) (tl s))" by (rule chain_mono) simp
      with ne None show ?thesis by (subst finditer.simps) simp
    next
      case (Some a)
      then obtain k t n where a: "match_section s = Some (k, t, n)" by (cases a) auto
      from "1.IH"(2)[OF ne a] have "chain (pos + n) (finditer (pos + n) (drop n s))" by simp
      with ne a match_section_length[OF a] show ?thesis
        by (subst finditer.simps) simp
    qed
  qed
qed

lemma finditer_upper: "m \<in> set (finditer pos s) \<Longrightarrow> m_end m \<le> pos + length s"
proof (induction pos s rule: finditer.induct)
  case (1 pos s)
  show ?case
  proof (cases "s = []")
    case True
    with "1.prems" show ?thesis by (simp add: finditer.simps)
  next
    case ne: False
    show ?thesis
    proof (cases "match_section s")
      case None
      with ne "1.prems" have "m \<in> set (finditer (pos + 1) (tl s))"
        by (subst (asm) finditer.simps) simp
      from "1.IH"(1)[OF ne None this] ne show ?thesis by (cases s) simp_all
    next
      case (Some a)
      then obtain k t n where a: "match_section s = Some (k, t, n)" by (cases a) auto
      from ne a "1.prems" have
        "m = \<lparr>m_start = pos, m_end = pos + n, m_group1 = k, m_group2 = t\<rparr>
           \<or> m \<in> set (finditer (pos + n) (drop n s))"
        by (subst (asm) finditer.simps) simp
      then show ?thesis
      proof
        assume "m = \<lparr>m_start = pos, m_end = pos + n, m_group1 = k, m_group2 = t\<rparr>"
        with match_section_le[OF a] show ?thesis by simp
      next
        assume "m \<in> set (finditer (pos + n) (drop n s))"
        from "1.IH"(2)[OF ne a refl refl this] match_section_le[OF a] show ?thesis by simp
      qed
    qed
  qed
qed

lemma build_sections_contiguous:
  "chain lo ms \<Longrightarrow> \<forall>m\<in>set ms. m_end m \<le> length c \<Longrightarrow>
     contiguous (length c) (build_sections c ms)"
proof (induction ms arbitrary: lo)
  case Nil
  then show ?case by simp
next
  case (Cons m ms)
  show ?case
  proof (cases ms)
    case Nil
    with Cons.prems show ?thesis by (simp add: Let_def)
  next
    case (Cons m' r)
    from Cons.prems \<open>ms = m' # r\<close> have c: "chain (m_end m) (m' # r)" by simp
    from Cons.IH[OF _ ] Cons.prems \<open>ms = m' # r\<close>
    have "contiguous (length c) (build_sections c (m' # r))" by auto
    with Cons.prems \<open>ms = m' # r\<close> show ?thesis by (simp add: Let_def)
  qed
qed

lemma parse_sections_contiguous: "contiguous (length content) (parse_sections content)"
  unfolding parse_sections_def
  by (rule build_sections_contiguous[OF finditer_chain]) (auto dest: finditer_upper)

lemma contiguous_nth:
  "contiguous hi secs \<Longrightarrow> i < length secs \<Longrightarrow>
     start_pos (secs ! i) < end_pos (secs ! i) \<and>
     end_pos (secs ! i) = (if Suc i < length secs then start_pos (secs ! Suc i) else hi)"
proof (induction hi secs arbitrary: i rule: contiguous.induct)
  case (1 hi)
  then show ?case by simp
next
  case (2 hi s)
  then show ?case by simp
next
  case (3 hi s s' r)
  show ?case
  proof (cases i)
    case 0
    with "3.prems" show ?thesis by simp
  next
    case (Suc j)
    with "3.prems" have "contiguous hi (s' # r)" "j < length (s' # r)" by simp_all
    from "3.IH"[OF this] Suc show ?thesis by simp
  qed
qed

lemma contiguous_all:
  "contiguous hi secs \<Longrightarrow> \<forall>s\<in>set secs. start_pos s < end_pos s \<and> end_pos s \<le> hi"
proof (induction hi secs rule: contiguous.induct)
  case (3 hi a s' r)
  then have IH: "\<forall>s\<in>set (s' # r). start_pos s < end_pos s \<and> end_pos s \<le> hi" by simp
  then have "start_pos s' < end_pos s' \<and> end_pos s' \<le> hi" by simp
  with "3.prems" IH show ?case by auto
qed simp_all

lemma contiguous_bounds:
  "contiguous hi secs \<Longrightarrow> s \<in> set secs \<Longrightarrow> start_pos s < end_pos s \<and> end_pos s \<le> hi"
  using contiguous_all by blast

lemma contiguous_sorted: "contiguous hi secs \<Longrightarrow> sorted_wrt (\<lambda>a b. end_pos a \<le> start_pos b) secs"
proof (induction hi secs rule: contiguous.induct)
  case (3 hi s s' r)
  then have IH: "sorted_wrt (\<lambda>a b. end_pos a \<le> start_pos b) (s' # r)" by simp
  have "\<forall>x\<in>set r. end_pos s \<le> start_pos x"
  proof
    fix x assume "x \<in> set r"
    with IH have "end_pos s' \<le> start_pos x" by simp
    moreover from "3.prems" contiguous_bounds[of hi "s' # r" s']
    have "start_pos s' < end_pos s'" by simp
    ultimately show "end_pos s \<le> start_pos x" using "3.prems" by simp
  qed
  with IH "3.prems" show ?case by simp
qed simp_all

lemma contiguous_union:
  "contiguous hi secs \<Longrightarrow> secs \<noteq> [] \<Longrightarrow>
     (\<Union>s\<in>set secs. {start_pos s..<end_pos s}) = {start_pos (hd secs)..<hi}"
proof (induction hi secs rule: contiguous.induct)
  case (3 hi s s' r)
  then have "(\<Union>s\<in>set (s' # r). {start_pos s..<end_pos s}) = {start_pos s'..<hi}" by simp
  moreover from "3.prems" have "start_pos s < start_pos s'" by simp
  moreover from "3.prems" contiguous_bounds[of hi "s' # r" s']
  have "start_pos s' \<le> hi" by simp
  ultimately show ?case using "3.prems" by auto
qed simp_all

lemma finditer_Nil: "finditer pos [] = []"
  by (simp add: finditer.simps)

lemma finditer_skip: "match_section (c # cs) = None \<Longrightarrow> finditer pos (c # cs) = finditer (Suc pos) cs"
  by (subst finditer.simps) simp

lemma finditer_hit:
  "match_section (c # cs) = Some (k, t, n) \<Longrightarrow>
     finditer pos (c # cs) =
       \<lparr>m_start = pos, m_end = pos + n, m_group1 = k, m_group2 = t\<rparr>
         # finditer (pos + n) (drop n (c # cs))"
  by (subst finditer.simps) simp

lemma match_section_other: "c \<noteq> BSL \<Longrightarrow> match_section (c # r) = None"
  by (simp add: match_section_def)

lemmas pattern_eval = finditer_Nil finditer_skip finditer_hit match_section_def section_kinds_def
  match_tail_def match_braced_def

lemma finditer_example:
  "finditer 0 example_doc =
     [\<lparr>m_start = 0, m_end = 15, m_group1 = ''section'', m_group2 = ''Intro''\<rparr>,
      \<lparr>m_start = 22, m_end = 39, m_group1 = ''section'', m_group2 = ''Methods''\<rparr>]"
  unfolding example_doc_def by (simp add: pattern_eval)

lemma example_doc_sections:
  "parse_sections example_doc
     = [\<lparr>section_type = ''section'', title = ''Intro'', preview = ''Hello'', start_pos = 0, end_pos = 22\<rparr>,
        \<lparr>section_type = ''section'', title = ''Methods'', preview = ''World'', start_pos = 22, end_pos = 46\<rparr>]"
  unfolding parse_sections_def finditer_example
  by (simp add: example_doc_def strip_def is_space_def slice_def)

text \<open>
  C2, the coverage invariant of parsing.  For every document, the sections returned by
  \<open>parse_sections\<close> come in the order of their start offsets; the content-end offset of
  each equals the start offset of the next, and the content-end offset of the last one is
  the length of the document; every section starts before (so not after) it ends.  Hence the
  ranges from start to content-end cover the document from the start of the first
  section to its end, and the ranges of two different sections share no offset.
\<close>

theorem parse_sections_coverage:
  "let secs = parse_sections content in
     (\<forall>i<length secs. start_pos (secs ! i) \<le> end_pos (secs ! i) \<and>
        end_pos (secs ! i) =
          (if Suc i < length secs then start_pos (secs ! Suc i) else length content)) \<and>
     sorted (map start_pos secs) \<and> sorted (map end_pos secs) \<and>
     (secs \<noteq> [] \<longrightarrow>
        (\<Union>s\<in>set secs. {start_pos s..<end_pos s}) = {start_pos (hd secs)..<length content}) \<and>
     (\<forall>i<length secs. \<forall>j<length secs. i \<noteq> j \<longrightarrow>
        {start_pos (secs ! i)..<end_pos (secs ! i)} \<inter> {start_pos (secs ! j)..<end_pos (secs ! j)} = {})"
proof -
  define secs where "secs = parse_sections content"
  have cont: "contiguous (length content) secs"
    unfolding secs_def by (rule parse_sections_contiguous)
  have nth: "\<forall>i<length secs. start_pos (secs ! i) \<le> end_pos (secs ! i) \<and>
        end_pos (secs ! i) =
          (if Suc i < length secs then start_pos (secs ! Suc i) else length content)"
  proof (intro allI impI)
    fix i assume "i < length secs"
    from contiguous_nth[OF cont this]
    show "start_pos (secs ! i) \<le> end_pos (secs ! i) \<and>
        end_pos (secs ! i) =
          (if Suc i < length secs then start_pos (secs ! Suc i) else length content)"
      by (simp add: less_imp_le)
  qed
  have sw: "sorted_wrt (\<lambda>a b. end_pos a \<le> start_pos b) secs"
    by (rule contiguous_sorted[OF cont])
  have lt: "\<forall>s\<in>set secs. start_pos s < end_pos s"
    using contiguous_all[OF cont] by simp
  have "sorted_wrt (\<lambda>a b. start_pos a \<le> start_pos b) secs"
  proof (rule sorted_wrt_mono_rel[OF _ sw])
    fix a b assume "a \<in> set secs" "b \<in> set secs" "end_pos a \<le> start_pos b"
    with lt show "start_pos a \<le> start_pos b" by fastforce
  qed
  then have s1: "sorted (map start_pos secs)" by (simp add: sorted_map)
  have "sorted_wrt (\<lambda>a b. end_pos a \<le> end_pos b) secs"
  proof (rule sorted_wrt_mono_rel[OF _ sw])
    fix a b assume "a \<in> set secs" "b \<in> set secs" "end_pos a \<le> start_pos b"
    with lt show "end_pos a \<le> end_pos b" by fastforce
  qed
  then have s2: "sorted (map end_pos secs)" by (simp add: sorted_map)
  have un: "secs \<noteq> [] \<longrightarrow>
        (\<Union>s\<in>set secs. {start_pos s..<end_pos s}) = {start_pos (hd secs)..<length content}"
    using contiguous_union[OF cont] by simp
  have dj: "\<forall>i<length secs. \<forall>j<length secs. i \<noteq> j \<longrightarrow>
        {start_pos (secs ! i)..<end_pos (secs ! i)} \<inter> {start_pos (secs ! j)..<end_pos (secs ! j)} = {}"
  proof (intro allI impI)
    fix i j assume ij: "i < length secs" "j < length secs" "i \<noteq> j"
    from ij consider "i < j" | "j < i" by linarith
    then show "{start_pos (secs ! i)..<end_pos (secs ! i)} \<inter> {start_pos (secs ! j)..<end_pos (secs ! j)} = {}"
    proof cases
      case 1
      from sorted_wrt_nth_less[OF sw 1 ij(2)] show ?thesis by auto
    next
      case 2
      from sorted_wrt_nth_less[OF sw 2 ij(1)] show ?thesis by auto
    qed
  qed
  from nth s1 s2 un dj show ?thesis
    unfolding secs_def[symmetric] Let_def by blast
qed

text \<open>C2 at the example document: two sections, the first ending where the second starts,
  the second at the end of the document.\<close>

theorem parse_sections_coverage_witness:
  "length (parse_sections example_doc) = 2 \<and>
   end_pos (parse_sections example_doc ! 0) = start_pos (parse_sections example_doc ! 1) \<and>
   end_pos (parse_sections example_doc ! 1) = length example_doc"
proof -
  have len: "length (parse_sections example_doc) = 2"
    by (simp add: example_doc_sections)
  from parse_sections_coverage[of example_doc] len show ?thesis
    by (simp add: Let_def)
qed

section \<open>Headings, retrieval and update\<close>

lemma finditer_match:
  "m \<in> set (finditer pos s) \<Longrightarrow>
     pos \<le> m_start m \<and>
     match_section (drop (m_start m - pos) s) = Some (m_group1 m, m_group2 m, m_end m - m_start m)
     \<and> m_start m \<le> m_end m"
proof (induction pos s rule: finditer.induct)
  case (1 pos s)
  show ?case
  proof (cases "s = []")
    case True
    with "1.prems" show ?thesis by (simp add: finditer.simps)
  next
    case ne: False
    show ?thesis
    proof (cases "match_section s")
      case None
      with ne "1.prems" have "m \<in> set (finditer (pos + 1) (tl s))"
        by (subst (asm) finditer.simps) simp
      from "1.IH"(1)[OF ne None this]
      have a: "pos + 1 \<le> m_start m"
        and b: "match_section (drop (m_start m - (pos + 1)) (tl s))
                 = Some (m_group1 m, m_group2 m, m_end m - m_start m)"
        and c: "m_start m \<le> m_end m" by simp_all
      from a have "m_start m - pos = Suc (m_start m - (pos + 1))" by simp
      then have "drop (m_start m - pos) s = drop (m_start m - (pos + 1)) (tl s)"
        by (simp add: drop_Suc)
      with a b c show ?thesis by simp
    next
      case (Some a)
      then obtain k t n where a: "match_section s = Some (k, t, n)" by (cases a) auto
      from ne a "1.prems" have
        "m = \<lparr>m_start = pos, m_end = pos + n, m_group1 = k, m_group2 = t\<rparr>
           \<or> m \<in> set (finditer (pos + n) (drop n s))"
        by (subst (asm) finditer.simps) simp
      then show ?thesis
      proof
        assume "m = \<lparr>m_start = pos, m_end = pos + n, m_group1 = k, m_group2 = t\<rparr>"
        with a show ?thesis by simp
      next
        assume "m \<in> set (finditer (pos + n) (drop n s))"
        note ih = "1.IH"(2)[OF ne a refl refl this]
        from ih have x: "pos + n \<le> m_start m" and z: "m_start m \<le> m_end m" by blast+
        from ih have y: "match_section (drop (m_start m - (pos + n)) (drop n s))
                 = Some (m_group1 m, m_group2 m, m_end m - m_start m)" by blast
        from x have e: "m_start m - (pos + n) + n = m_start m - pos" by simp
        have "drop (m_start m - (pos + n)) (drop n s) = drop (m_start m - pos) s"
          by (simp only: drop_drop e)
        with y x z show ?thesis by simp
      qed
    qed
  qed
qed

lemma chain_lower: "chain lo ms \<Longrightarrow> m \<in> set ms \<Longrightarrow> lo \<le> m_start m"
proof (induction ms arbitrary: lo)
  case (Cons a ms)
  from Cons.prems(2) have "m = a \<or> m \<in> set ms" by simp
  then show ?case
  proof
    assume "m = a" with Cons.prems(1) show ?thesis by simp
  next
    assume "m \<in> set ms"
    from Cons.IH[OF _ this, of "m_end a"] Cons.prems(1) show ?thesis by simp
  qed
qed simp

lemma build_sections_match:
  "s \<in> set (build_sections c ms) \<Longrightarrow> chain lo ms \<Longrightarrow> \<forall>m\<in>set ms. m_end m \<le> length c \<Longrightarrow>
     \<exists>m\<in>set ms. section_type s = m_group1 m \<and> title s = m_group2 m \<and>
        start_pos s = m_start m \<and> m_end m \<le> end_pos s"
proof (induction ms arbitrary: lo)
  case Nil
  then show ?case by simp
next
  case (Cons m ms)
  let ?endp = "case ms of [] \<Rightarrow> length c | m' # _ \<Rightarrow> m_start m'"
  from Cons.prems(1) consider
    (hd) "section_type s = m_group1 m" "title s = m_group2 m" "start_pos s = m_start m"
         "end_pos s = ?endp"
    | (tl) "s \<in> set (build_sections c ms)"
    by (auto simp: Let_def)
  then show ?case
  proof cases
    case hd
    have "m_end m \<le> ?endp"
    proof (cases ms)
      case Nil
      with Cons.prems(3) show ?thesis by simp
    next
      case (Cons m' r)
      with Cons.prems(2) show ?thesis by simp
    qed
    with hd show ?thesis by auto
  next
    case tl
    from Cons.prems(2) have "chain (m_end m) ms" by simp
    from Cons.IH[OF tl this] Cons.prems(3) show ?thesis by auto
  qed
qed

lemma parse_sections_heading:
  assumes "s \<in> set (parse_sections content)"
  shows "\<exists>n. match_section (drop (start_pos s) content) = Some (section_type s, title s, n)
           \<and> start_pos s + n \<le> end_pos s"
proof -
  have up: "\<forall>m\<in>set (finditer 0 content). m_end m \<le> length content"
    by (auto dest: finditer_upper)
  from build_sections_match[OF assms[unfolded parse_sections_def] finditer_chain up]
  obtain m where m: "m \<in> set (finditer 0 content)" "section_type s = m_group1 m"
    "title s = m_group2 m" "start_pos s = m_start m" "m_end m \<le> end_pos s" by blast
  from finditer_match[OF m(1)] m show ?thesis by auto
qed

lemma find_section_mem: "find_section secs wanted = Some s \<Longrightarrow> s \<in> set secs"
  by (auto simp: find_section_def find_Some_iff)

lemma match_section_heading:
  assumes "match_section s = Some (k, t, n)"
  shows "\<exists>star. (star = [] \<or> star = ''*'') \<and> n = length (heading_text k star t)
           \<and> take n s = heading_text k star t"
proof -
  from match_section_SomeD[OF assms] obtain star rest where
    st: "star = [] \<or> star = ''*''" and s: "s = BSL # k @ star @ ''{'' @ t @ ''}'' @ rest"
    and n: "n = 1 + length k + length star + length t + 2" by blast
  have "s = heading_text k star t @ rest" by (simp add: s heading_text_def)
  moreover have "n = length (heading_text k star t)" by (simp add: n heading_text_def)
  ultimately show ?thesis using st by (intro exI[of _ star]) simp
qed

lemma match_section_header_match:
  assumes "match_section s = Some (k, t, n)"
  shows "header_match k t s = Some n"
proof -
  from match_section_SomeD[OF assms] obtain star rest where
    st: "star = [] \<or> star = ''*''" and s: "s = BSL # k @ star @ ''{'' @ t @ ''}'' @ rest"
    and n: "n = 1 + length k + length star + length t + 2" by blast
  from st show ?thesis
  proof
    assume "star = []"
    with s n show ?thesis by (simp add: header_match_def)
  next
    assume "star = ''*''"
    with s n show ?thesis by (simp add: header_match_def)
  qed
qed

lemma header_match_le: "header_match ty ti s = Some n \<Longrightarrow> n \<le> length s"
  by (cases s) (auto simp: header_match_def Let_def prefix_def split: if_splits)

lemma re_search_first:
  "header_match ty ti (drop p s) = Some n \<Longrightarrow>
   \<forall>q<p. header_match ty ti (drop q s) = None \<Longrightarrow>
     re_search ty ti pos s = Some (pos + p, pos + p + n)"
proof (induction s arbitrary: pos p)
  case Nil
  then show ?case by (simp add: header_match_def)
next
  case (Cons c cs)
  show ?case
  proof (cases p)
    case 0
    with Cons.prems(1) show ?thesis by simp
  next
    case (Suc p')
    with Cons.prems(2) have "header_match ty ti (drop 0 (c # cs)) = None" by blast
    then have none: "header_match ty ti (c # cs) = None" by simp
    from Cons.prems(1) Suc have 1: "header_match ty ti (drop p' cs) = Some n" by simp
    have 2: "\<forall>q<p'. header_match ty ti (drop q cs) = None"
    proof (intro allI impI)
      fix q assume "q < p'"
      then have "Suc q < p" using Suc by simp
      with Cons.prems(2) have "header_match ty ti (drop (Suc q) (c # cs)) = None" by blast
      then show "header_match ty ti (drop q cs) = None" by simp
    qed
    from Cons.IH[OF 1 2, of "Suc pos"] none Suc show ?thesis by simp
  qed
qed

lemma re_search_found:
  "header_match ty ti (drop p s) = Some n \<Longrightarrow>
     \<exists>q e. re_search ty ti pos s = Some (pos + q, e) \<and> q \<le> p"
proof (induction s arbitrary: pos p)
  case Nil
  then show ?case by (simp add: header_match_def)
next
  case (Cons c cs)
  show ?case
  proof (cases "header_match ty ti (c # cs)")
    case (Some n')
    then have "re_search ty ti pos (c # cs) = Some (pos + 0, pos + n')" by simp
    then show ?thesis by blast
  next
    case None
    with Cons.prems obtain p' where p: "p = Suc p'" by (cases p) auto
    with Cons.prems have "header_match ty ti (drop p' cs) = Some n" by simp
    from Cons.IH[OF this, of "Suc pos"] obtain q e where
      "re_search ty ti (Suc pos) cs = Some (Suc pos + q, e)" "q \<le> p'" by blast
    with None p have "re_search ty ti pos (c # cs) = Some (pos + Suc q, e) \<and> Suc q \<le> p" by simp
    then show ?thesis by blast
  qed
qed

lemma section_span_split:
  assumes "s \<in> set (parse_sections content)"
  shows "\<exists>star. (star = [] \<or> star = ''*'') \<and>
           start_pos s + length (heading_text (section_type s) star (title s)) \<le> end_pos s \<and>
           slice content (start_pos s) (start_pos s + length (heading_text (section_type s) star (title s)))
             = heading_text (section_type s) star (title s) \<and>
           header_match (section_type s) (title s) (drop (start_pos s) content)
             = Some (length (heading_text (section_type s) star (title s)))"
proof -
  from parse_sections_heading[OF assms] obtain n where
    m: "match_section (drop (start_pos s) content) = Some (section_type s, title s, n)"
    and le: "start_pos s + n \<le> end_pos s" by blast
  from match_section_heading[OF m] obtain star where
    st: "star = [] \<or> star = ''*''" and n: "n = length (heading_text (section_type s) star (title s))"
    and tk: "take n (drop (start_pos s) content) = heading_text (section_type s) star (title s)"
    by blast
  from tk have "slice content (start_pos s) (start_pos s + n) = heading_text (section_type s) star (title s)"
    by (simp add: slice_def)
  with st le n match_section_header_match[OF m] show ?thesis by (intro exI[of _ star]) simp
qed

lemma slice_split: "a \<le> b \<Longrightarrow> b \<le> c \<Longrightarrow> slice xs a c = slice xs a b @ slice xs b c"
proof -
  assume ab: "a \<le> b" and bc: "b \<le> c"
  then have "c - a = (b - a) + (c - b)" by simp
  then have "take (c - a) (drop a xs) = take (b - a) (drop a xs) @ take (c - b) (drop (b - a) (drop a xs))"
    by (simp only: take_add)
  with ab show ?thesis by (simp add: slice_def)
qed

lemma slice_whole: "b \<le> c \<Longrightarrow> xs = take b xs @ slice xs b c @ drop c xs"
proof -
  assume bc: "b \<le> c"
  have "drop b xs = take (c - b) (drop b xs) @ drop (c - b) (drop b xs)"
    by (simp only: append_take_drop_id)
  with bc have "drop b xs = slice xs b c @ drop c xs" by (simp add: slice_def)
  then show ?thesis by (metis append_take_drop_id)
qed

lemma strip_ends: "strip b = [] \<or> (\<not> is_space (hd (strip b)) \<and> \<not> is_space (last (strip b)))"
proof (cases "strip b = []")
  case True
  then show ?thesis by simp
next
  case False
  let ?w = "dropWhile is_space b"
  let ?v = "dropWhile is_space (rev ?w)"
  have t: "strip b = rev ?v" by (simp add: strip_def)
  with False have vne: "?v \<noteq> []" by simp
  have wne: "?w \<noteq> []"
  proof
    assume "?w = []"
    then have "?v = []" by (simp only: rev.simps dropWhile.simps)
    with vne show False ..
  qed
  from vne have "\<not> is_space (hd ?v)" by (rule hd_dropWhile)
  with vne t have l: "\<not> is_space (last (strip b))" by (simp add: last_rev)
  have "rev ?w = takeWhile is_space (rev ?w) @ ?v" by simp
  then have "last (rev ?w) = last ?v" using vne by (metis last_appendR)
  with wne have "last ?v = hd ?w" by (simp add: last_rev)
  moreover from wne have "\<not> is_space (hd ?w)" by (rule hd_dropWhile)
  ultimately have "\<not> is_space (hd (rev ?v))" using vne by (simp add: hd_rev)
  with t l show ?thesis by simp
qed

lemma strip_Cons_space: "is_space c \<Longrightarrow> strip (c # xs) = strip xs"
  by (simp add: strip_def)

lemma strip_framed: "strip ([NL] @ strip b @ [NL]) = strip b"
proof (cases "strip b = []")
  case True
  then have "strip ([NL] @ strip b @ [NL]) = strip [NL, NL]" by simp
  also have "strip [NL, NL] = []" by (simp add: strip_def is_space_def)
  finally show ?thesis using True by simp
next
  case False
  with strip_ends[of b] have h: "\<not> is_space (hd (strip b))" and l: "\<not> is_space (last (strip b))"
    by simp_all
  have sp: "is_space NL" by (simp add: is_space_def)
  from False h have 1: "dropWhile is_space (strip b @ [NL]) = strip b @ [NL]"
    by (cases "strip b") simp_all
  from False l have 2: "dropWhile is_space (rev (strip b)) = rev (strip b)"
    by (cases "rev (strip b)") (simp_all add: hd_rev[symmetric])
  have "strip ([NL] @ strip b @ [NL]) = strip (strip b @ [NL])"
    using sp by (simp add: strip_Cons_space)
  also have "\<dots> = rev (dropWhile is_space (rev (dropWhile is_space (strip b @ [NL]))))"
    by (rule strip_def)
  also have "\<dots> = rev (dropWhile is_space (NL # rev (strip b)))" by (simp only: 1) simp
  also have "\<dots> = rev (dropWhile is_space (rev (strip b)))" using sp by simp
  also have "\<dots> = strip b" by (simp only: 2 rev_rev_ident)
  finally show ?thesis .
qed

lemma update_section_header_found:
  assumes "find_section (parse_sections content) wanted = Some s"
  shows "\<exists>hs he. re_search (section_type s) (title s) 0 content = Some (hs, he) \<and> hs \<le> start_pos s"
proof -
  from find_section_mem[OF assms] have mem: "s \<in> set (parse_sections content)" .
  from section_span_split[OF mem] obtain n where
    "header_match (section_type s) (title s) (drop (start_pos s) content) = Some n" by blast
  from re_search_found[OF this, of 0] show ?thesis by auto
qed

lemma could_not_locate_unreachable:
  "update_section_content content wanted new_content
     \<noteq> Inl (''Could not locate section header for '' @ [SQ] @ wanted @ [SQ])"
proof (cases "find_section (parse_sections content) wanted")
  case None
  then show ?thesis by (simp add: update_section_content_def)
next
  case (Some s)
  from update_section_header_found[OF Some] obtain hs he where
    "re_search (section_type s) (title s) 0 content = Some (hs, he)" by blast
  with Some show ?thesis by (simp add: update_section_content_def)
qed

lemma update_section_locality:
  assumes f: "find_section (parse_sections content) wanted = Some s"
    and first: "\<forall>q<start_pos s. header_match (section_type s) (title s) (drop q content) = None"
  shows "\<exists>star. (star = [] \<or> star = ''*'') \<and>
     start_pos s + length (heading_text (section_type s) star (title s)) \<le> end_pos s \<and>
     slice content (start_pos s) (start_pos s + length (heading_text (section_type s) star (title s)))
        = heading_text (section_type s) star (title s) \<and>
     (\<forall>new_content. update_section_content content wanted new_content =
          Inr (take (start_pos s + length (heading_text (section_type s) star (title s))) content
               @ [NL] @ strip new_content @ [NL] @ drop (end_pos s) content))"
proof -
  from find_section_mem[OF f] have mem: "s \<in> set (parse_sections content)" .
  from section_span_split[OF mem] obtain star where
    st: "star = [] \<or> star = ''*''"
    and le: "start_pos s + length (heading_text (section_type s) star (title s)) \<le> end_pos s"
    and sl: "slice content (start_pos s) (start_pos s + length (heading_text (section_type s) star (title s)))
             = heading_text (section_type s) star (title s)"
    and hm: "header_match (section_type s) (title s) (drop (start_pos s) content)
             = Some (length (heading_text (section_type s) star (title s)))" by blast
  from re_search_first[OF hm first, of 0]
  have "re_search (section_type s) (title s) 0 content
          = Some (start_pos s, start_pos s + length (heading_text (section_type s) star (title s)))"
    by simp
  with f have "\<forall>new_content. update_section_content content wanted new_content =
          Inr (take (start_pos s + length (heading_text (section_type s) star (title s))) content
               @ [NL] @ strip new_content @ [NL] @ drop (end_pos s) content)"
    by (simp add: update_section_content_def)
  with st le sl show ?thesis by (intro exI[of _ star]) simp
qed

lemma finditer_nested:
  "finditer 0 nested_doc =
     [\<lparr>m_start = 0, m_end = 23, m_group1 = ''section'', m_group2 = CHR ''a'' # BSL # ''section{Foo''\<rparr>,
      \<lparr>m_start = 24, m_end = 37, m_group1 = ''section'', m_group2 = ''Foo''\<rparr>]"
  unfolding nested_doc_def by (simp add: pattern_eval)

lemma nested_doc_sections:
  "parse_sections nested_doc
     = [\<lparr>section_type = ''section'', title = CHR ''a'' # BSL # ''section{Foo'', preview = ''X'',
          start_pos = 0, end_pos = 24\<rparr>,
        \<lparr>section_type = ''section'', title = ''Foo'', preview = ''Y'', start_pos = 24, end_pos = 38\<rparr>]"
  unfolding parse_sections_def finditer_nested
  by (simp add: nested_doc_def strip_def is_space_def slice_def)

lemma nested_doc_find:
  "find_section (parse_sections nested_doc) ''Foo''
     = Some \<lparr>section_type = ''section'', title = ''Foo'', preview = ''Y'', start_pos = 24, end_pos = 38\<rparr>"
  unfolding nested_doc_sections by (simp add: find_section_def lower_def lower_char_def char_of_def bit_Suc_0_iff)

lemma nested_doc_search: "re_search ''section'' ''Foo'' 0 nested_doc = Some (10, 23)"
  unfolding nested_doc_def by (simp add: header_match_def)

lemma example_doc_find:
  "find_section (parse_sections example_doc) ''intro''
     = Some \<lparr>section_type = ''section'', title = ''Intro'', preview = ''Hello'', start_pos = 0, end_pos = 22\<rparr>"
  unfolding example_doc_sections by (simp add: find_section_def lower_def lower_char_def char_of_def bit_Suc_0_iff)

lemma example_doc_find_Intro:
  "find_section (parse_sections example_doc) ''Intro''
     = Some \<lparr>section_type = ''section'', title = ''Intro'', preview = ''Hello'', start_pos = 0, end_pos = 22\<rparr>"
  unfolding example_doc_sections by (simp add: find_section_def lower_def lower_char_def char_of_def bit_Suc_0_iff)

lemma example_doc_search: "re_search ''section'' ''Intro'' 0 example_doc = Some (0, 15)"
  unfolding example_doc_def by (simp add: header_match_def)

text \<open>
  C4, as amended.  When a section's title matches the wanted one, \<open>get_section_by_title\<close>
  (and so the \<open>get_section_content\<close> tool) returns the substring of the document from
  the start offset of the first such section to its content-end offset: the heading
  command itself, followed by the section body that runs from header-end to content-end.
\<close>

theorem get_section_by_title_full_span:
  assumes "find_section (parse_sections content) wanted = Some s"
  shows "get_section_by_title content wanted = Some (slice content (start_pos s) (end_pos s)) \<and>
     (\<exists>star. (star = [] \<or> star = ''*'') \<and>
        slice content (start_pos s) (end_pos s) =
          heading_text (section_type s) star (title s)
          @ slice content (start_pos s + length (heading_text (section_type s) star (title s))) (end_pos s))"
proof -
  from find_section_mem[OF assms] have mem: "s \<in> set (parse_sections content)" .
  from section_span_split[OF mem] obtain star where
    st: "star = [] \<or> star = ''*''"
    and le: "start_pos s + length (heading_text (section_type s) star (title s)) \<le> end_pos s"
    and sl: "slice content (start_pos s) (start_pos s + length (heading_text (section_type s) star (title s)))
             = heading_text (section_type s) star (title s)" by blast
  from slice_split[OF _ le, of "start_pos s" content] sl
  have "slice content (start_pos s) (end_pos s) =
          heading_text (section_type s) star (title s)
          @ slice content (start_pos s + length (heading_text (section_type s) star (title s))) (end_pos s)"
    by simp
  with st assms show ?thesis by (auto simp: get_section_by_title_def)
qed

text \<open>The amended C4 at the example document and the title \<open>intro\<close>.\<close>

theorem get_section_by_title_full_span_witness:
  "find_section (parse_sections example_doc) ''intro''
     = Some \<lparr>section_type = ''section'', title = ''Intro'', preview = ''Hello'', start_pos = 0, end_pos = 22\<rparr>
   \<and> get_section_by_title example_doc ''intro'' = Some (slice example_doc 0 22)"
  using get_section_by_title_full_span[OF example_doc_find] example_doc_find by simp

text \<open>
  C4 as stated fails: for the example document and the title \<open>Intro\<close> the body runs from
  offset 15 to offset 22 and is \<open>Hello\<close> between two newlines, but the string returned
  starts with the heading command.
\<close>

theorem get_section_content_counterexample:
  "get_section_by_title example_doc ''Intro'' = Some (BSL # ''section{Intro}'' @ [NL] @ ''Hello'' @ [NL])
   \<and> slice example_doc 15 22 = [NL] @ ''Hello'' @ [NL]
   \<and> get_section_by_title example_doc ''Intro'' \<noteq> Some (slice example_doc 15 22)
   \<and> get_section_content_text example_doc ''Intro'' =
       ''Content of section '' @ [SQ] @ ''Intro'' @ [SQ] @ '':'' @ [NL, NL]
         @ BSL # ''section{Intro}'' @ [NL] @ ''Hello'' @ [NL]"
proof -
  have a: "get_section_by_title example_doc ''Intro'' = Some (slice example_doc 0 22)"
    by (simp add: get_section_by_title_def example_doc_find_Intro)
  have b: "slice example_doc 0 22 = BSL # ''section{Intro}'' @ [NL] @ ''Hello'' @ [NL]"
    by (simp add: slice_def example_doc_def)
  have c: "slice example_doc 15 22 = [NL] @ ''Hello'' @ [NL]"
    by (simp add: slice_def example_doc_def)
  from a b c show ?thesis by (simp add: get_section_content_text_def)
qed

text \<open>
  C1 at a document the code does not treat as claimed.  In \<open>nested_doc\<close> the section titled
  \<open>Foo\<close> starts at offset 24, its heading ends at offset 37 and its content at 38.  The
  update keeps the document only up to offset 23, the end of the \<^emph>\<open>first\<close> heading, whose
  title holds the text of the second heading: the \<open>X\<close> before the section and the
  section's own heading are lost.
\<close>

theorem update_section_not_local:
  "find_section (parse_sections nested_doc) ''Foo''
     = Some \<lparr>section_type = ''section'', title = ''Foo'', preview = ''Y'', start_pos = 24, end_pos = 38\<rparr>
   \<and> slice nested_doc 24 37 = BSL # ''section{Foo}''
   \<and> update_section_content nested_doc ''Foo'' ''Z''
       = Inr (BSL # ''section{a'' @ BSL # ''section{Foo}'' @ [NL] @ ''Z'' @ [NL])
   \<and> update_section_content nested_doc ''Foo'' ''Z''
       \<noteq> Inr (take 37 nested_doc @ [NL] @ strip ''Z'' @ [NL] @ drop 38 nested_doc)"
proof -
  have u: "update_section_content nested_doc ''Foo'' ''Z''
       = Inr (take 23 nested_doc @ [NL] @ strip ''Z'' @ [NL] @ drop 38 nested_doc)"
    by (simp add: update_section_content_def nested_doc_find nested_doc_search)
  have t: "take 23 nested_doc = BSL # ''section{a'' @ BSL # ''section{Foo}''"
    "drop 38 nested_doc = []" "strip ''Z'' = ''Z''"
    "take 37 nested_doc = BSL # ''section{a'' @ BSL # ''section{Foo}X'' @ BSL # ''section{Foo}''"
    "slice nested_doc 24 37 = BSL # ''section{Foo}''"
    by (simp_all add: nested_doc_def strip_def is_space_def slice_def)
  from u t nested_doc_find show ?thesis by simp
qed

text \<open>
  C9 at the same document.  The section found for the title \<open>Foo\<close> starts at offset 24;
  the search for its heading over the whole document matches from offset 10 to offset 23.
\<close>

theorem header_rematch_not_at_start:
  "map start_pos (parse_sections nested_doc) = [0, 24]
   \<and> map_option start_pos (find_section (parse_sections nested_doc) ''Foo'') = Some 24
   \<and> re_search ''section'' ''Foo'' 0 nested_doc = Some (10, 23)"
proof -
  have "map start_pos (parse_sections nested_doc) = [0, 24]"
    by (simp add: nested_doc_sections)
  moreover have "map_option start_pos (find_section (parse_sections nested_doc) ''Foo'') = Some 24"
    by (simp add: nested_doc_find)
  ultimately show ?thesis using nested_doc_search by simp
qed

text \<open>
  C5 as stated fails: reading the section \<open>Intro\<close> of the example document and writing the
  string read back gives a document with the heading twice, which differs from the original
  in more than whitespace.
\<close>

theorem roundtrip_counterexample:
  "read_then_update example_doc ''Intro'' =
     Some (Inr (BSL # ''section{Intro}'' @ [NL] @ BSL # ''section{Intro}'' @ [NL] @ ''Hello'' @ [NL]
                @ BSL # ''section{Methods}'' @ [NL] @ ''World'' @ [NL]))
   \<and> filter (\<lambda>c. \<not> is_space c)
        (BSL # ''section{Intro}'' @ [NL] @ BSL # ''section{Intro}'' @ [NL] @ ''Hello'' @ [NL]
                @ BSL # ''section{Methods}'' @ [NL] @ ''World'' @ [NL])
       \<noteq> filter (\<lambda>c. \<not> is_space c) example_doc"
proof -
  have a: "get_section_by_title example_doc ''Intro'' = Some (slice example_doc 0 22)"
    by (simp add: get_section_by_title_def example_doc_find_Intro)
  have b: "slice example_doc 0 22 = BSL # ''section{Intro}'' @ [NL] @ ''Hello'' @ [NL]"
    by (simp add: slice_def example_doc_def)
  have s: "strip (BSL # ''section{Intro}'' @ [NL] @ ''Hello'' @ [NL]) = BSL # ''section{Intro}'' @ [NL] @ ''Hello''"
    by (simp add: strip_def is_space_def)
  have u: "update_section_content example_doc ''Intro'' (BSL # ''section{Intro}'' @ [NL] @ ''Hello'' @ [NL])
       = Inr (take 15 example_doc @ [NL] @ strip (BSL # ''section{Intro}'' @ [NL] @ ''Hello'' @ [NL]) @ [NL] @ drop 22 example_doc)"
    by (simp add: update_section_content_def example_doc_find_Intro example_doc_search)
  have t: "take 15 example_doc = BSL # ''section{Intro}''"
    "drop 22 example_doc = BSL # ''section{Methods}'' @ [NL] @ ''World'' @ [NL]"
    by (simp_all add: example_doc_def)
  have r: "read_then_update example_doc ''Intro'' =
     Some (Inr (BSL # ''section{Intro}'' @ [NL] @ BSL # ''section{Intro}'' @ [NL] @ ''Hello'' @ [NL]
                @ BSL # ''section{Methods}'' @ [NL] @ ''World'' @ [NL]))"
    unfolding read_then_update_def a b option.case u s t by simp
  have f: "filter (\<lambda>c. \<not> is_space c)
        (BSL # ''section{Intro}'' @ [NL] @ BSL # ''section{Intro}'' @ [NL] @ ''Hello'' @ [NL]
                @ BSL # ''section{Methods}'' @ [NL] @ ''World'' @ [NL])
       \<noteq> filter (\<lambda>c. \<not> is_space c) example_doc"
    by (simp add: example_doc_def is_space_def)
  from r f show ?thesis by blast
qed

text \<open>
  C5, as amended.  Let a section be found for the title, and let its heading be the leftmost
  place in the document where its type and title form a heading.  The string read is the
  heading followed by the body; writing the body (the string read without its heading) back
  with \<open>update_section\<close> gives the original document with the body replaced by a newline,
  the trimmed body and a newline.  Everything before header-end and from content-end on is
  unchanged, and trimming the new body region gives the trimmed old body.
\<close>

theorem section_body_roundtrip:
  assumes f: "find_section (parse_sections content) wanted = Some s"
    and first: "\<forall>q<start_pos s. header_match (section_type s) (title s) (drop q content) = None"
  shows "\<exists>star. (star = [] \<or> star = ''*'') \<and>
     (let he = start_pos s + length (heading_text (section_type s) star (title s));
          body = slice content he (end_pos s)
      in get_section_by_title content wanted = Some (heading_text (section_type s) star (title s) @ body) \<and>
         update_section_content content wanted body =
           Inr (take he content @ [NL] @ strip body @ [NL] @ drop (end_pos s) content) \<and>
         content = take he content @ body @ drop (end_pos s) content \<and>
         strip ([NL] @ strip body @ [NL]) = strip body)"
proof -
  from update_section_locality[OF f first] obtain star where
    st: "star = [] \<or> star = ''*''"
    and le: "start_pos s + length (heading_text (section_type s) star (title s)) \<le> end_pos s"
    and sl: "slice content (start_pos s) (start_pos s + length (heading_text (section_type s) star (title s)))
             = heading_text (section_type s) star (title s)"
    and up: "\<forall>new_content. update_section_content content wanted new_content =
          Inr (take (start_pos s + length (heading_text (section_type s) star (title s))) content
               @ [NL] @ strip new_content @ [NL] @ drop (end_pos s) content)"
    by blast
  define he where "he = start_pos s + length (heading_text (section_type s) star (title s))"
  define body where "body = slice content he (end_pos s)"
  have le': "he \<le> end_pos s" using le by (simp add: he_def)
  from slice_split[OF _ le', of "start_pos s" content] sl
  have "slice content (start_pos s) (end_pos s) = heading_text (section_type s) star (title s) @ body"
    by (simp add: he_def body_def)
  with f have g: "get_section_by_title content wanted
                   = Some (heading_text (section_type s) star (title s) @ body)"
    by (simp add: get_section_by_title_def)
  from up have u: "update_section_content content wanted body =
           Inr (take he content @ [NL] @ strip body @ [NL] @ drop (end_pos s) content)"
    by (simp add: he_def)
  from slice_whole[OF le', of content]
  have w: "content = take he content @ body @ drop (end_pos s) content" by (simp add: body_def)
  note facts = g[unfolded body_def he_def] u[unfolded body_def he_def]
    w[unfolded body_def he_def] strip_framed[of body, unfolded body_def he_def]
  show ?thesis
    unfolding Let_def by (intro exI[of _ star] conjI) (rule st facts)+
qed

text \<open>The amended C5 at the example document: writing the body of \<open>Intro\<close> back gives
  the document itself.\<close>

theorem section_body_roundtrip_witness:
  "find_section (parse_sections example_doc) ''intro''
     = Some \<lparr>section_type = ''section'', title = ''Intro'', preview = ''Hello'', start_pos = 0, end_pos = 22\<rparr>
   \<and> update_section_content example_doc ''intro'' ([NL] @ ''Hello'' @ [NL]) = Inr example_doc"
proof -
  let ?s = "\<lparr>section_type = ''section'', title = ''Intro'', preview = ''Hello'', start_pos = 0, end_pos = 22\<rparr>"
  have first: "\<forall>q<start_pos ?s. header_match (section_type ?s) (title ?s) (drop q example_doc) = None"
    by simp
  from section_body_roundtrip[OF example_doc_find first] obtain star where
    st: "star = [] \<or> star = ''*''"
    and g: "get_section_by_title example_doc ''intro''
             = Some (heading_text ''section'' star ''Intro''
                     @ slice example_doc (length (heading_text ''section'' star ''Intro'')) 22)"
    and u: "update_section_content example_doc ''intro''
              (slice example_doc (length (heading_text ''section'' star ''Intro'')) 22)
            = Inr (take (length (heading_text ''section'' star ''Intro'')) example_doc @ [NL]
                   @ strip (slice example_doc (length (heading_text ''section'' star ''Intro'')) 22)
                   @ [NL] @ drop 22 example_doc)"
    by (auto simp: Let_def)
  have "get_section_by_title example_doc ''intro'' = Some (slice example_doc 0 22)"
    by (simp add: get_section_by_title_def example_doc_find)
  with g have "slice example_doc 0 22 = heading_text ''section'' star ''Intro''
                     @ slice example_doc (length (heading_text ''section'' star ''Intro'')) 22"
    by simp
  with st have star: "star = []"
    by (auto simp: slice_def example_doc_def heading_text_def)
  have l: "length (heading_text ''section'' [] ''Intro'') = 15" by (simp add: heading_text_def)
  have e: "slice example_doc 15 22 = [NL] @ ''Hello'' @ [NL]"
    "strip ([NL] @ ''Hello'' @ [NL]) = ''Hello''"
    "take 15 example_doc @ [NL] @ ''Hello'' @ [NL] @ drop 22 example_doc = example_doc"
    by (simp_all add: slice_def example_doc_def strip_def is_space_def)
  from u[unfolded star l e(1)] have "update_section_content example_doc ''intro'' ([NL] @ ''Hello'' @ [NL])
     = Inr (take 15 example_doc @ [NL] @ strip ([NL] @ ''Hello'' @ [NL]) @ [NL] @ drop 22 example_doc)" .
  then have "update_section_content example_doc ''intro'' ([NL] @ ''Hello'' @ [NL]) = Inr example_doc"
    unfolding e(2) e(3) .
  with example_doc_find show ?thesis by simp
qed

section \<open>Project lookup\<close>

text \<open>
  C8, project lookup defaulting.  \<open>get_project_config\<close> fails with the "No projects
  configured" error when there are no projects; fails with "not found", listing the names
  that are configured, when the name supplied is not among them; and when no name is
  supplied it returns the project the configured default names, or, with no default
  configured, the only project there is.
\<close>

theorem get_project_config_lookup:
  "(projects cfg = [] \<longrightarrow>
      get_project_config cfg pn =
        Inl (ValueError (''No projects configured. Create overleaf_config.json or set ''
             @ ''OVERLEAF_PROJECT_ID and OVERLEAF_GIT_TOKEN environment variables.''))) \<and>
   (projects cfg \<noteq> [] \<and> map_of (projects cfg) n = None \<longrightarrow>
      get_project_config cfg (Some n) =
        Inl (ValueError (''Project '' @ [SQ] @ n @ [SQ] @ '' not found. Available: ''
             @ join '', '' (map fst (projects cfg))))) \<and>
   (default_project cfg = Some d \<and> d \<noteq> [] \<and> map_of (projects cfg) d = Some p \<longrightarrow>
      get_project_config cfg None = Inr p) \<and>
   (default_project cfg = None \<and> projects cfg = [(k, q)] \<longrightarrow>
      get_project_config cfg None = Inr q)"
proof (intro conjI impI)
  assume "projects cfg = []"
  then show "get_project_config cfg pn =
        Inl (ValueError (''No projects configured. Create overleaf_config.json or set ''
             @ ''OVERLEAF_PROJECT_ID and OVERLEAF_GIT_TOKEN environment variables.''))"
    by (simp add: get_project_config_def)
next
  assume "projects cfg \<noteq> [] \<and> map_of (projects cfg) n = None"
  then show "get_project_config cfg (Some n) =
        Inl (ValueError (''Project '' @ [SQ] @ n @ [SQ] @ '' not found. Available: ''
             @ join '', '' (map fst (projects cfg))))"
    by (simp add: get_project_config_def)
next
  assume a: "default_project cfg = Some d \<and> d \<noteq> [] \<and> map_of (projects cfg) d = Some p"
  then have "projects cfg \<noteq> []" by auto
  with a show "get_project_config cfg None = Inr p"
    by (simp add: get_project_config_def)
next
  assume "default_project cfg = None \<and> projects cfg = [(k, q)]"
  then show "get_project_config cfg None = Inr q"
    by (simp add: get_project_config_def)
qed

lemma get_project_config_first:
  "projects cfg = (k, q) # rest \<Longrightarrow> default_project cfg = None \<or> default_project cfg = Some [] \<Longrightarrow>
     get_project_config cfg None = Inr q"
  by (auto simp: get_project_config_def)

lemma get_project_config_dangling_default:
  "projects cfg \<noteq> [] \<Longrightarrow> default_project cfg = Some d \<Longrightarrow> d \<noteq> [] \<Longrightarrow>
   map_of (projects cfg) d = None \<Longrightarrow>
     get_project_config cfg None =
       Inl (ValueError (''Project '' @ [SQ] @ d @ [SQ] @ '' not found. Available: ''
            @ join '', '' (map fst (projects cfg))))"
  by (simp add: get_project_config_def)

text \<open>C8 at the example configuration, one case for each part.\<close>

theorem get_project_config_lookup_witness:
  "get_project_config (example_config\<lparr>projects := []\<rparr>) None =
        Inl (ValueError (''No projects configured. Create overleaf_config.json or set ''
             @ ''OVERLEAF_PROJECT_ID and OVERLEAF_GIT_TOKEN environment variables.'')) \<and>
   get_project_config example_config (Some ''thesis'') =
        Inl (ValueError (''Project '' @ [SQ] @ ''thesis'' @ [SQ] @ '' not found. Available: paper'')) \<and>
   get_project_config (example_config\<lparr>default_project := Some ''paper''\<rparr>) None = Inr example_project \<and>
   get_project_config example_config None = Inr example_project"
proof -
  have 1: "projects (example_config\<lparr>projects := []\<rparr>) = []" by simp
  have 2: "projects example_config \<noteq> [] \<and> map_of (projects example_config) ''thesis'' = None"
    by (simp add: example_config_def)
  have 3: "default_project (example_config\<lparr>default_project := Some ''paper''\<rparr>) = Some ''paper'' \<and> ''paper'' \<noteq> []
       \<and> map_of (projects (example_config\<lparr>default_project := Some ''paper''\<rparr>)) ''paper'' = Some example_project"
    by (simp add: example_config_def)
  have 4: "default_project example_config = None \<and> projects example_config = [(''paper'', example_project)]"
    by (simp add: example_config_def)
  have j: "join '', '' (map fst (projects example_config)) = ''paper''"
    by (simp add: example_config_def)
  from get_project_config_lookup[of "example_config\<lparr>projects := []\<rparr>" None] 1
  have a: "get_project_config (example_config\<lparr>projects := []\<rparr>) None =
        Inl (ValueError (''No projects configured. Create overleaf_config.json or set ''
             @ ''OVERLEAF_PROJECT_ID and OVERLEAF_GIT_TOKEN environment variables.''))" by blast
  from get_project_config_lookup[of example_config _ "''thesis''"] 2
  have b: "get_project_config example_config (Some ''thesis'') =
        Inl (ValueError (''Project '' @ [SQ] @ ''thesis'' @ [SQ] @ '' not found. Available: ''
             @ join '', '' (map fst (projects example_config))))" by blast
  from get_project_config_lookup[of "example_config\<lparr>default_project := Some ''paper''\<rparr>" _ _ "''paper''" example_project] 3
  have c: "get_project_config (example_config\<lparr>default_project := Some ''paper''\<rparr>) None = Inr example_project"
    by blast
  from get_project_config_lookup[of example_config _ _ _ _ "''paper''" example_project] 4
  have d: "get_project_config example_config None = Inr example_project" by blast
  from a b[unfolded j] c d show ?thesis by simp
qed

section \<open>Path validation\<close>

lemma path_str_prefix: "prefix ps qs \<Longrightarrow> prefix (path_str ps) (path_str qs)"
proof -
  assume "prefix ps qs"
  then obtain r where q: "qs = ps @ r" by (auto simp: prefix_def)
  show ?thesis
  proof (cases "ps = []")
    case True
    then show ?thesis using q by (cases r) (simp_all add: path_str_def)
  next
    case False
    then show ?thesis using q by (simp add: path_str_def)
  qed
qed

lemma path_str_length: "ps \<noteq> [] \<Longrightarrow> length (path_str ps) = (\<Sum>p\<leftarrow>ps. Suc (length p))"
  by (simp add: path_str_def length_concat comp_def)

lemma path_str_shorter:
  assumes "strict_prefix ps qs" "[] \<notin> set qs"
  shows "length (path_str ps) < length (path_str qs)"
proof -
  from assms(1) obtain r where q: "qs = ps @ r" and r: "r \<noteq> []"
    by (auto simp: strict_prefix_def prefix_def)
  then obtain x xs where rx: "r = x # xs" by (cases r) auto
  show ?thesis
  proof (cases "ps = []")
    case True
    with q rx assms(2) have "x \<noteq> []" by auto
    with True q rx show ?thesis by (simp add: path_str_def)
  next
    case False
    with q rx show ?thesis by (simp add: path_str_length)
  qed
qed

text \<open>
  C3, as amended.  \<open>validate_path\<close> looks at the resolved path only.  An input that cannot be
  resolved, because a segment of the joined path (or of the root) holds NUL, fails with the
  resolver's \<open>ValueError\<close>.  Of the others, every input that resolves inside the mirror root
  (or to the root itself) succeeds and returns that exact resolved path, also when it
  contains \<open>..\<close> segments or is absolute; every input whose resolved path, as a string, does
  not start with the string of the resolved root is rejected with the path-escape error; so
  is, in particular, every input that \<open>..\<close> segments take to a directory above the root.
\<close>

theorem validate_path_resolved:
  "let joined = joinpath base_path (parse_path target_path);
       root = lexical_resolve cwd base_path;
       resolved = lexical_resolve cwd joined;
       escape = Inl (ValueError (''Path '' @ [SQ] @ target_path @ [SQ] @ '' escapes repository root''))
   in (has_null joined \<or> has_null base_path \<longrightarrow>
         validate_path cwd base_path target_path = Inl (ValueError ''embedded null byte'')) \<and>
      (\<not> has_null joined \<and> \<not> has_null base_path \<longrightarrow>
         (prefix root resolved \<longrightarrow> validate_path cwd base_path target_path = Inr resolved) \<and>
         (\<not> prefix (path_str root) (path_str resolved) \<longrightarrow>
            validate_path cwd base_path target_path = escape) \<and>
         (strict_prefix resolved root \<and> [] \<notin> set root \<longrightarrow>
            validate_path cwd base_path target_path = escape))"
proof -
  define joined where "joined = joinpath base_path (parse_path target_path)"
  define root where "root = lexical_resolve cwd base_path"
  define resolved where "resolved = lexical_resolve cwd joined"
  have n: "has_null joined \<or> has_null base_path \<longrightarrow>
         validate_path cwd base_path target_path = Inl (ValueError ''embedded null byte'')"
    by (auto simp: validate_path_def resolve_def joined_def)
  have ok: "validate_path cwd base_path target_path =
              (if \<not> prefix (path_str root) (path_str resolved)
               then Inl (ValueError (''Path '' @ [SQ] @ target_path @ [SQ] @ '' escapes repository root''))
               else Inr resolved)"
    if "\<not> has_null joined" "\<not> has_null base_path"
    using that by (simp add: validate_path_def resolve_def joined_def root_def resolved_def)
  have a: "prefix root resolved \<longrightarrow> validate_path cwd base_path target_path = Inr resolved"
    if "\<not> has_null joined" "\<not> has_null base_path"
    using path_str_prefix[of root resolved] ok[OF that] by simp
  have b: "\<not> prefix (path_str root) (path_str resolved) \<longrightarrow>
         validate_path cwd base_path target_path =
           Inl (ValueError (''Path '' @ [SQ] @ target_path @ [SQ] @ '' escapes repository root''))"
    if "\<not> has_null joined" "\<not> has_null base_path"
    using ok[OF that] by simp
  have c: "strict_prefix resolved root \<and> [] \<notin> set root \<longrightarrow>
         validate_path cwd base_path target_path =
           Inl (ValueError (''Path '' @ [SQ] @ target_path @ [SQ] @ '' escapes repository root''))"
    if nn: "\<not> has_null joined" "\<not> has_null base_path"
  proof
    assume h: "strict_prefix resolved root \<and> [] \<notin> set root"
    then have "length (path_str resolved) < length (path_str root)"
      using path_str_shorter by blast
    then have "\<not> prefix (path_str root) (path_str resolved)"
      by (auto dest: prefix_length_le)
    with b[OF nn] show "validate_path cwd base_path target_path =
           Inl (ValueError (''Path '' @ [SQ] @ target_path @ [SQ] @ '' escapes repository root''))"
      by blast
  qed
  from n a b c show ?thesis
    unfolding Let_def joined_def root_def resolved_def by blast
qed

lemmas path_eval = validate_path_def resolve_def lexical_resolve_def has_null_def joinpath_def
  parse_path_def path_str_def

text \<open>The amended C3 at a path inside the mirror, at one outside it, at the parent of the
  root, and at a path with a NUL in it.\<close>

theorem validate_path_resolved_witness:
  "validate_path [''srv''] (parse_path ''./overleaf_cache/abc'') ''chapters/./intro.tex''
     = Inr [''srv'', ''overleaf_cache'', ''abc'', ''chapters'', ''intro.tex''] \<and>
   validate_path [''srv''] (parse_path ''./overleaf_cache/abc'') ''../../etc/passwd''
     = Inl (ValueError (''Path '' @ [SQ] @ ''../../etc/passwd'' @ [SQ] @ '' escapes repository root'')) \<and>
   validate_path [''srv''] (parse_path ''./overleaf_cache/abc'') ''..''
     = Inl (ValueError (''Path '' @ [SQ] @ ''..'' @ [SQ] @ '' escapes repository root'')) \<and>
   validate_path [''srv''] (parse_path ''./overleaf_cache/abc'') [CHR ''a'', CHR 0x00, CHR ''b'']
     = Inl (ValueError ''embedded null byte'')"
proof -
  let ?base = "parse_path ''./overleaf_cache/abc''"
  have nb: "\<not> has_null ?base" by (simp add: path_eval)
  have n1: "\<not> has_null (joinpath ?base (parse_path ''chapters/./intro.tex''))"
    and n2: "\<not> has_null (joinpath ?base (parse_path ''../../etc/passwd''))"
    and n3: "\<not> has_null (joinpath ?base (parse_path ''..''))"
    and n4: "has_null (joinpath ?base (parse_path [CHR ''a'', CHR 0x00, CHR ''b'']))"
    by (simp_all add: path_eval)
  have root: "lexical_resolve [''srv''] ?base = [''srv'', ''overleaf_cache'', ''abc'']"
    by (simp add: path_eval)
  have r1: "lexical_resolve [''srv''] (joinpath ?base (parse_path ''chapters/./intro.tex''))
              = [''srv'', ''overleaf_cache'', ''abc'', ''chapters'', ''intro.tex'']"
    by (simp add: path_eval)
  have r2: "lexical_resolve [''srv''] (joinpath ?base (parse_path ''../../etc/passwd''))
              = [''srv'', ''etc'', ''passwd'']"
    by (simp add: path_eval)
  have r3: "lexical_resolve [''srv''] (joinpath ?base (parse_path ''..'')) = [''srv'', ''overleaf_cache'']"
    by (simp add: path_eval)
  have h1: "prefix (lexical_resolve [''srv''] ?base)
              (lexical_resolve [''srv''] (joinpath ?base (parse_path ''chapters/./intro.tex'')))"
    unfolding root r1 by simp
  have h2: "\<not> prefix (path_str (lexical_resolve [''srv''] ?base))
                (path_str (lexical_resolve [''srv''] (joinpath ?base (parse_path ''../../etc/passwd''))))"
    unfolding root r2 by (simp add: path_str_def)
  have h3: "strict_prefix (lexical_resolve [''srv''] (joinpath ?base (parse_path ''..'')))
              (lexical_resolve [''srv''] ?base)
              \<and> [] \<notin> set (lexical_resolve [''srv''] ?base)"
    unfolding root r3 by (simp add: strict_prefix_def)
  from validate_path_resolved[where base_path="?base" and target_path="''chapters/./intro.tex''" and cwd="[''srv'']"] nb n1 h1
  have a: "validate_path [''srv''] ?base ''chapters/./intro.tex''
     = Inr (lexical_resolve [''srv''] (joinpath ?base (parse_path ''chapters/./intro.tex'')))"
    unfolding Let_def by blast
  from validate_path_resolved[where base_path="?base" and target_path="''../../etc/passwd''" and cwd="[''srv'']"] nb n2 h2
  have b: "validate_path [''srv''] ?base ''../../etc/passwd''
     = Inl (ValueError (''Path '' @ [SQ] @ ''../../etc/passwd'' @ [SQ] @ '' escapes repository root''))"
    unfolding Let_def by blast
  from validate_path_resolved[where base_path="?base" and target_path="''..''" and cwd="[''srv'']"] nb n3 h3
  have c: "validate_path [''srv''] ?base ''..''
     = Inl (ValueError (''Path '' @ [SQ] @ ''..'' @ [SQ] @ '' escapes repository root''))"
    unfolding Let_def by blast
  from validate_path_resolved[where base_path="?base" and target_path="[CHR ''a'', CHR 0x00, CHR ''b'']" and cwd="[''srv'']"] n4
  have d: "validate_path [''srv''] ?base [CHR ''a'', CHR 0x00, CHR ''b'']
     = Inl (ValueError ''embedded null byte'')"
    unfolding Let_def by blast
  from a[unfolded r1] b c d show ?thesis by blast
qed

text \<open>
  C3 as stated fails: \<open>a/../b.tex\<close> contains a \<open>..\<close> segment, and an absolute path into the
  mirror has an absolute prefix; both are accepted, since they resolve inside the root.
\<close>

theorem validate_path_counterexample:
  "''..'' \<in> set (split_on (CHR ''/'') ''a/../b.tex'') \<and>
   validate_path [''srv''] (parse_path ''./overleaf_cache/abc'') ''a/../b.tex''
     = Inr [''srv'', ''overleaf_cache'', ''abc'', ''b.tex''] \<and>
   is_absolute (parse_path ''/srv/overleaf_cache/abc/b.tex'') \<and>
   validate_path [''srv''] (parse_path ''./overleaf_cache/abc'') ''/srv/overleaf_cache/abc/b.tex''
     = Inr [''srv'', ''overleaf_cache'', ''abc'', ''b.tex'']"
  by (simp add: path_eval)

text \<open>
  The comparison is one of strings, so a directory beside the mirror whose name starts with
  the name of the mirror passes it.
\<close>

lemma validate_path_sibling_prefix:
  "validate_path [''srv''] (parse_path ''./overleaf_cache/abc'') ''../abc-evil/x.tex''
     = Inr [''srv'', ''overleaf_cache'', ''abc-evil'', ''x.tex'']"
  by (simp add: path_eval)

section \<open>Listing files\<close>

lemma listed_files_sorted: "sorted (listed_files repo_path entries extension)"
  by (simp add: listed_files_def)

lemma listed_files_mem:
  "f \<in> set (listed_files repo_path entries extension) \<longleftrightarrow>
     (\<exists>rel. (rel, True) \<in> set entries \<and> f = join ''/'' rel \<and>
        \<not> (\<exists>part\<in>set (parts repo_path @ rel). startswith part ''.'') \<and>
        (extension = [] \<or> suffix_of (path_name (parts repo_path @ rel)) = extension))"
  by (auto simp: listed_files_def)

lemma listed_files_not_hidden:
  assumes "f \<in> set (listed_files repo_path entries extension)"
  shows "\<exists>rel. (rel, True) \<in> set entries \<and> f = join ''/'' rel \<and>
           (\<forall>part\<in>set rel. \<not> startswith part ''.'')"
  using assms unfolding listed_files_mem by auto

lemma listed_files_exact:
  assumes "\<forall>part\<in>set (parts repo_path). \<not> startswith part ''.''" and "extension \<noteq> []"
  shows "set (listed_files repo_path entries extension) =
           {join ''/'' rel | rel. (rel, True) \<in> set entries \<and>
              (\<forall>part\<in>set rel. \<not> startswith part ''.'') \<and>
              suffix_of (path_name (parts repo_path @ rel)) = extension}"
proof (intro set_eqI iffI)
  fix f assume "f \<in> set (listed_files repo_path entries extension)"
  with assms(2) obtain rel where "(rel, True) \<in> set entries" "f = join ''/'' rel"
    "\<not> (\<exists>part\<in>set (parts repo_path @ rel). startswith part ''.'')"
    "suffix_of (path_name (parts repo_path @ rel)) = extension"
    unfolding listed_files_mem by blast
  then show "f \<in> {join ''/'' rel | rel. (rel, True) \<in> set entries \<and>
              (\<forall>part\<in>set rel. \<not> startswith part ''.'') \<and>
              suffix_of (path_name (parts repo_path @ rel)) = extension}"
    by auto
next
  fix f assume "f \<in> {join ''/'' rel | rel. (rel, True) \<in> set entries \<and>
              (\<forall>part\<in>set rel. \<not> startswith part ''.'') \<and>
              suffix_of (path_name (parts repo_path @ rel)) = extension}"
  then obtain rel where r: "(rel, True) \<in> set entries" "f = join ''/'' rel"
    "\<forall>part\<in>set rel. \<not> startswith part ''.''"
    "suffix_of (path_name (parts repo_path @ rel)) = extension" by blast
  from r(3) assms(1) have "\<not> (\<exists>part\<in>set (parts repo_path @ rel). startswith part ''.'')"
    by auto
  with r show "f \<in> set (listed_files repo_path entries extension)"
    unfolding listed_files_mem by blast
qed

text \<open>
  C10 at a mirror the code does not list as claimed.  With the cache directory under
  \<open>/home/u/.cache\<close> the test for a leading dot sees the component \<open>.cache\<close> of the mirror
  root in the parts of every path, so \<open>main.tex\<close>, a file with suffix \<open>.tex\<close> and no hidden
  component in its relative path, is not listed; under \<open>./overleaf_cache\<close> it is.
\<close>

theorem list_files_hidden_root:
  "parts (joinpath (parse_path ''/home/u/.cache/overleaf'') (parse_path ''abc''))
     = [''/'', ''home'', ''u'', ''.cache'', ''overleaf'', ''abc''] \<and>
   suffix_of ''main.tex'' = ''.tex'' \<and>
   listed_files (joinpath (parse_path ''/home/u/.cache/overleaf'') (parse_path ''abc''))
     [([''main.tex''], True)] ''.tex'' = [] \<and>
   list_files_text ''Paper'' (joinpath (parse_path ''/home/u/.cache/overleaf'') (parse_path ''abc''))
     [([''main.tex''], True)] ''.tex'' = ''No files found with extension .tex'' \<and>
   listed_files (joinpath (parse_path ''./overleaf_cache'') (parse_path ''abc''))
     [([''main.tex''], True)] ''.tex'' = [''main.tex'']"
proof -
  have p: "parts (joinpath (parse_path ''/home/u/.cache/overleaf'') (parse_path ''abc''))
     = [''/'', ''home'', ''u'', ''.cache'', ''overleaf'', ''abc'']"
    by (simp add: parts_def joinpath_def parse_path_def)
  have q: "parts (joinpath (parse_path ''./overleaf_cache'') (parse_path ''abc''))
     = [''overleaf_cache'', ''abc'']"
    by (simp add: parts_def joinpath_def parse_path_def)
  have s: "suffix_of ''main.tex'' = ''.tex''" by (simp add: suffix_of_def)
  have l: "listed_files (joinpath (parse_path ''/home/u/.cache/overleaf'') (parse_path ''abc''))
     [([''main.tex''], True)] ''.tex'' = []"
    unfolding listed_files_def p by (simp add: startswith_def)
  have l2: "listed_files (joinpath (parse_path ''./overleaf_cache'') (parse_path ''abc''))
     [([''main.tex''], True)] ''.tex'' = [''main.tex'']"
    unfolding listed_files_def q by (simp add: startswith_def path_name_def s)
  from p s l l2 show ?thesis by (simp add: list_files_text_def)
qed

section \<open>Tools that change the mirror\<close>

text \<open>
  C6, create-conflict atomicity.  When the target of \<open>create_file\<close> exists in the mirror (as
  it is after \<open>ensure_repo\<close>), the caller gets the message that the file already exists and
  that \<open>edit_file\<close> is the tool to use, and the state is the one \<open>ensure_repo\<close> left: no file
  is written, nothing is staged, no commit is made, nothing is pushed.
\<close>

theorem create_file_conflict:
  assumes "get_project_config (env_config e) (arg_project_name args) = Inr project"
    and "ensure_repo e project w = Inr w1"
    and "validate_path (env_cwd e) (get_repo_path e (project_id project)) (arg_file_path args)
           = Inr target_path"
    and "path_exists w1 target_path"
  shows "call_tool e create_file args w =
           (''Error: File '' @ quote (arg_file_path args)
              @ '' already exists. Use edit_file to modify it.'', w1)"
  using assms by (simp add: call_tool_def execute_tool_def)

lemma example_setup:
  "get_project_config (env_config example_env) (arg_project_name example_args) = Inr example_project"
  "ensure_repo example_env example_project example_world = Inr example_world"
  "validate_path (env_cwd example_env) (get_repo_path example_env (project_id example_project))
     (arg_file_path example_args) = Inr [''srv'', ''overleaf_cache'', ''abc'', ''main.tex'']"
  "path_exists example_world [''srv'', ''overleaf_cache'', ''abc'', ''main.tex'']"
  by (simp_all add: example_env_def example_args_def example_config_def example_project_def
        example_world_def get_project_config_def ensure_repo_def get_repo_path_def path_exists_def
        exists_def path_eval)

text \<open>C6 at the example mirror, which holds \<open>main.tex\<close>.\<close>

theorem create_file_conflict_witness:
  "call_tool example_env create_file example_args example_world =
     (''Error: File '' @ [SQ] @ ''main.tex'' @ [SQ] @ '' already exists. Use edit_file to modify it.'',
      example_world)"
  using create_file_conflict[OF example_setup] by (simp add: quote_def example_args_def)

lemma update_section_content_message:
  "update_section_content c t n = Inl msg \<Longrightarrow> msg \<noteq> ''Updated section '' @ rest"
  by (auto simp: update_section_content_def Let_def split: option.splits prod.splits)

lemma tool_body_push_fails:
  assumes pe: "env_push_error e = Some m"
    and ok: "tool_body t e (args\<lparr>arg_push := Some False\<rparr>) target_path w1
               = (Inr (not_pushed_message t args), w')"
  shows "tool_body t e (args\<lparr>arg_push := Some True\<rparr>) target_path w1 = (Inl (GitCommandError m), w')
       \<and> tool_body t e (args\<lparr>arg_push := None\<rparr>) target_path w1 = (Inl (GitCommandError m), w')
       \<and> (\<exists>earlier staged. commits w' = earlier @ [(commit_message_or args (default_commit_message t args), staged)])"
proof (cases t)
  case create_file
  with ok pe show ?thesis
    by (auto simp: Let_def push_wanted_def commit_message_or_def push_def index_commit_def quote_def
          split: if_splits sum.splits)
next
  case edit_file
  with ok pe show ?thesis
    by (auto simp: Let_def push_wanted_def commit_message_or_def push_def index_commit_def quote_def
          split: if_splits sum.splits)
next
  case update_section
  with ok pe show ?thesis
    by (auto simp: Let_def push_wanted_def commit_message_or_def push_def index_commit_def quote_def
          split: if_splits sum.splits dest: update_section_content_message)
next
  case delete_file
  with ok pe show ?thesis
    by (auto simp: Let_def push_wanted_def commit_message_or_def push_def index_commit_def quote_def
          split: if_splits sum.splits)
qed

text \<open>
  C7, as amended.  Take any of the four tools and a call that, with push disabled, commits
  and returns the tool's "not pushed" text, in state \<open>w'\<close>.  When the push raises, the same
  call with push enabled (given as true, or left out) ends in the same state \<open>w'\<close>: the commit
  is the last one of the local history and is not rolled back.  The text the caller gets is
  \<open>Error: \<close> followed by the message of the push error.
\<close>

theorem push_failure_reported_as_error:
  assumes pe: "env_push_error e = Some m"
    and ok: "execute_tool e t (args\<lparr>arg_push := Some False\<rparr>) w = (Inr (not_pushed_message t args), w')"
  shows "call_tool e t (args\<lparr>arg_push := Some True\<rparr>) w = (''Error: '' @ m, w')
       \<and> call_tool e t (args\<lparr>arg_push := None\<rparr>) w = (''Error: '' @ m, w')
       \<and> (\<exists>earlier staged. commits w' = earlier @ [(commit_message_or args (default_commit_message t args), staged)])"
proof -
  from ok obtain project w1 target_path where
    cfg: "get_project_config (env_config e) (arg_project_name args) = Inr project"
    and rep: "ensure_repo e project w = Inr w1"
    and vp: "validate_path (env_cwd e) (get_repo_path e (project_id project)) (arg_file_path args)
               = Inr target_path"
    and body: "tool_body t e (args\<lparr>arg_push := Some False\<rparr>) target_path w1
               = (Inr (not_pushed_message t args), w')"
    by (auto simp: execute_tool_def split: sum.splits)
  from tool_body_push_fails[OF pe body] cfg rep vp show ?thesis
    by (simp add: call_tool_def execute_tool_def)
qed

lemmas tool_eval = write_text_def config_git_user_def index_add_def index_commit_def push_def
  push_wanted_def commit_message_or_def quote_def

lemma edit_file_body_example:
  "tool_body edit_file example_env (example_args\<lparr>arg_push := p\<rparr>)
     [''srv'', ''overleaf_cache'', ''abc'', ''main.tex''] example_world =
   (if (case p of None \<Rightarrow> True | Some b \<Rightarrow> b) then (Inl (GitCommandError ''remote unreachable''), committed_world)
    else (Inr (not_pushed_message edit_file example_args), committed_world))"
  by (simp add: example_env_def example_args_def example_world_def committed_world_def
        path_exists_def tool_eval Let_def)

lemma edit_file_example:
  "execute_tool example_env edit_file (example_args\<lparr>arg_push := p\<rparr>) example_world =
   (if (case p of None \<Rightarrow> True | Some b \<Rightarrow> b) then (Inl (GitCommandError ''remote unreachable''), committed_world)
    else (Inr (not_pushed_message edit_file example_args), committed_world))"
proof -
  have a: "arg_project_name (example_args\<lparr>arg_push := p\<rparr>) = arg_project_name example_args"
    "arg_file_path (example_args\<lparr>arg_push := p\<rparr>) = arg_file_path example_args" by simp_all
  show ?thesis
    unfolding execute_tool_def a example_setup sum.case edit_file_body_example ..
qed

text \<open>The amended C7 at the example mirror, for \<open>edit_file\<close>.\<close>

theorem push_failure_reported_as_error_witness:
  "env_push_error example_env = Some ''remote unreachable'' \<and>
   call_tool example_env edit_file (example_args\<lparr>arg_push := Some True\<rparr>) example_world
     = (''Error: remote unreachable'', committed_world)"
proof -
  have pe: "env_push_error example_env = Some ''remote unreachable''"
    by (simp add: example_env_def)
  have ok: "execute_tool example_env edit_file (example_args\<lparr>arg_push := Some False\<rparr>) example_world
              = (Inr (not_pushed_message edit_file example_args), committed_world)"
    by (simp add: edit_file_example)
  from push_failure_reported_as_error[OF pe ok] pe show ?thesis by simp
qed

text \<open>
  C7 as stated fails: \<open>edit_file\<close> on the example mirror, with a push that raises, commits
  locally and returns \<open>Error: remote unreachable\<close>, not a text saying that the change
  succeeded locally and is not pushed.
\<close>

theorem push_failure_counterexample:
  "call_tool example_env edit_file example_args example_world
     = (''Error: remote unreachable'',
        \<lparr>fs = [([''srv'', ''overleaf_cache'', ''abc''], Dir),
               ([''srv'', ''overleaf_cache'', ''abc'', ''main.tex''], File ''new'')],
         git_user = Some (''Overleaf MCP'', ''mcp@overleaf.local''), index = [],
         commits = [(''Update main.tex'', [''main.tex''])], remote = []\<rparr>)
   \<and> call_tool example_env edit_file example_args example_world
     \<noteq> (not_pushed_message edit_file example_args, committed_world)"
proof -
  have "example_args\<lparr>arg_push := None\<rparr> = example_args" by (simp add: example_args_def)
  with edit_file_example[of None]
  have "execute_tool example_env edit_file example_args example_world
          = (Inl (GitCommandError ''remote unreachable''), committed_world)" by simp
  then have "call_tool example_env edit_file example_args example_world
          = (''Error: remote unreachable'', committed_world)"
    by (simp add: call_tool_def)
  then show ?thesis by (simp add: committed_world_def)
qed

end
